theory Spec2Isabelle
  imports
    Complex_Main
    "HOL-Library.AList"
    "HOL-Library.Char_ord"
    "HOL-Library.List_Lexorder"
begin

section \<open>Python values\<close>

text \<open>
  The planner and the memory manager hand around untyped Python values (the
  \<^verbatim>\<open>Any\<close> of their annotations): the result dictionary of
  \<^verbatim>\<open>get_task_progress\<close>, the \<^verbatim>\<open>metadata\<close> of a task or of a conversation
  entry, and everything \<^verbatim>\<open>json.dump\<close> is given. A dictionary is an association
  list in insertion order, as Python keeps it. A float is the rational number
  it denotes (only finite floats occur). \<open>PObject\<close> stands for any other
  object (a set, a datetime, ...), identified by a number.
\<close>

datatype pyval =
    PNone
  | PBool bool
  | PInt int
  | PFloat rat
  | PStr string
  | PList "pyval list"
  | PTuple "pyval list"
  | PDict "(pyval \<times> pyval) list"
  | PObject nat

section \<open>Tasks and the task planner (src/core/task\_planner.py)\<close>

datatype TaskStatus = PENDING | IN_PROGRESS | COMPLETED | FAILED | BLOCKED

datatype TaskPriority = LOW | MEDIUM | HIGH | CRITICAL

text \<open>The \<^verbatim>\<open>.value\<close> of each member of the enum \<^verbatim>\<open>TaskPriority\<close>.\<close>

fun priority_value :: "TaskPriority \<Rightarrow> string" where
  "priority_value LOW = ''low''"
| "priority_value MEDIUM = ''medium''"
| "priority_value HIGH = ''high''"
| "priority_value CRITICAL = ''critical''"

text \<open>
  The dataclass \<^verbatim>\<open>Task\<close>. Its field \<^verbatim>\<open>id\<close> is \<open>task_id\<close> here. An
  \<^verbatim>\<open>Optional\<close> field is an \<open>option\<close>.
\<close>

record Task =
  task_id :: string
  title :: string
  description :: string
  status :: TaskStatus
  priority :: TaskPriority
  dependencies :: "string list"
  task_type :: string
  estimated_time :: "int option"
  actual_time :: "int option"
  created_at :: "string option"
  completed_at :: "string option"
  metadata :: "(string \<times> pyval) list option"

text \<open>
  The state of a \<^verbatim>\<open>TaskPlanner\<close>: the dictionary \<^verbatim>\<open>self.tasks\<close> in insertion
  order and \<^verbatim>\<open>self.task_counter\<close>, which starts at 0 and is only ever
  incremented. A task object is reached through the dictionary only, so an
  assignment to a field of \<^verbatim>\<open>self.tasks[k]\<close> is an update of the entry in place
  (\<open>AList.update\<close> keeps the position of a key that is present and appends a
  new one).
\<close>

record TaskPlanner =
  tasks :: "(string \<times> Task) list"
  task_counter :: nat

definition init_planner :: TaskPlanner where
  "init_planner = \<lparr>tasks = [], task_counter = 0\<rparr>"

text \<open>\<^verbatim>\<open>self.tasks.values()\<close>\<close>

definition task_values :: "TaskPlanner \<Rightarrow> Task list" where
  "task_values p = map snd (tasks p)"

text \<open>
  \<^verbatim>\<open>_are_dependencies_completed\<close>: the loop returns False at the first
  dependency that is unknown or not COMPLETED.
\<close>

fun are_dependencies_completed :: "TaskPlanner \<Rightarrow> string list \<Rightarrow> bool" where
  "are_dependencies_completed p [] = True"
| "are_dependencies_completed p (dep_id # deps) =
     (case map_of (tasks p) dep_id of
        None \<Rightarrow> False
      | Some t \<Rightarrow>
          if status t \<noteq> COMPLETED then False
          else are_dependencies_completed p deps)"

text \<open>\<^verbatim>\<open>start_task\<close> returns its boolean and the planner after the call.\<close>

definition start_task :: "TaskPlanner \<Rightarrow> string \<Rightarrow> bool \<times> TaskPlanner" where
  "start_task p tid =
     (case map_of (tasks p) tid of
        None \<Rightarrow> (False, p)
      | Some task \<Rightarrow>
          if status task \<noteq> PENDING then (False, p)
          else if \<not> are_dependencies_completed p (dependencies task) then (False, p)
          else (True, p\<lparr>tasks := AList.update tid (task\<lparr>status := IN_PROGRESS\<rparr>) (tasks p)\<rparr>))"

text \<open>
  \<^verbatim>\<open>complete_task\<close>; \<open>now\<close> is what \<^verbatim>\<open>_get_timestamp()\<close> reads from the
  clock during the call.
\<close>

definition complete_task ::
  "TaskPlanner \<Rightarrow> string \<Rightarrow> int option \<Rightarrow> string \<Rightarrow> bool \<times> TaskPlanner" where
  "complete_task p tid actual now =
     (case map_of (tasks p) tid of
        None \<Rightarrow> (False, p)
      | Some task \<Rightarrow>
          if status task \<noteq> IN_PROGRESS then (False, p)
          else (True, p\<lparr>tasks := AList.update tid
                  (task\<lparr>status := COMPLETED, actual_time := actual, completed_at := Some now\<rparr>)
                  (tasks p)\<rparr>))"

text \<open>
  \<^verbatim>\<open>fail_task\<close>: \<^verbatim>\<open>not task.metadata\<close> holds for None and for the empty
  dictionary.
\<close>

definition fail_task :: "TaskPlanner \<Rightarrow> string \<Rightarrow> string \<Rightarrow> bool \<times> TaskPlanner" where
  "fail_task p tid reason =
     (case map_of (tasks p) tid of
        None \<Rightarrow> (False, p)
      | Some task \<Rightarrow>
          let md = (case metadata task of None \<Rightarrow> [] | Some m \<Rightarrow> m) in
          (True, p\<lparr>tasks := AList.update tid
                  (task\<lparr>status := FAILED,
                        metadata := Some (AList.update ''failure_reason'' (PStr reason) md)\<rparr>)
                  (tasks p)\<rparr>))"

text \<open>
  The f-string \<^verbatim>\<open>f"task_{self.task_counter:04d}"\<close>: the decimal digits of
  the counter, padded with zeros on the left to a width of four.
\<close>

definition digit_char :: "nat \<Rightarrow> char" where
  "digit_char d = char_of (48 + d)"

fun str_nat :: "nat \<Rightarrow> string" where
  "str_nat n = (if n < 10 then [digit_char n] else str_nat (n div 10) @ [digit_char (n mod 10)])"

declare str_nat.simps [simp del]

definition format_04d :: "nat \<Rightarrow> string" where
  "format_04d n = replicate (4 - length (str_nat n)) (CHR ''0'') @ str_nat n"

definition make_task_id :: "nat \<Rightarrow> string" where
  "make_task_id n = ''task_'' @ format_04d n"

text \<open>
  \<^verbatim>\<open>create_task\<close> returns the new id and the planner after the call. An
  argument left at its default None is None here; \<^verbatim>\<open>dependencies or []\<close>
  turns None into the empty list. \<open>now\<close> is the clock reading of
  \<^verbatim>\<open>_get_timestamp()\<close>.
\<close>

definition create_task ::
  "TaskPlanner \<Rightarrow> string \<Rightarrow> string \<Rightarrow> TaskPriority \<Rightarrow> string list option \<Rightarrow> string \<Rightarrow>
   int option \<Rightarrow> (string \<times> pyval) list option \<Rightarrow> string \<Rightarrow> string \<times> TaskPlanner" where
  "create_task p ttl descr prio deps ttype est md now =
     (let tid = make_task_id (task_counter p);
          task = \<lparr>task_id = tid, title = ttl, description = descr, status = PENDING,
                  priority = prio,
                  dependencies = (case deps of None \<Rightarrow> [] | Some ds \<Rightarrow> ds),
                  task_type = ttype, estimated_time = est, actual_time = None,
                  created_at = Some now, completed_at = None, metadata = md\<rparr>
      in (tid, \<lparr>tasks = AList.update tid task (tasks p),
                task_counter = task_counter p + 1\<rparr>))"

text \<open>
  \<^verbatim>\<open>str.lower()\<close> and \<^verbatim>\<open>str.replace(" ", "_")\<close> on the ASCII titles of
  the phases.
\<close>

definition lower_char :: "char \<Rightarrow> char" where
  "lower_char c =
     (if CHR ''A'' \<le> c \<and> c \<le> CHR ''Z'' then char_of (of_char c + (32::nat)) else c)"

definition lower :: "string \<Rightarrow> string" where
  "lower s = map lower_char s"

definition replace_space :: "string \<Rightarrow> string" where
  "replace_space s = map (\<lambda>c. if c = CHR '' '' then CHR ''_'' else c) s"

definition phases :: "(string \<times> string \<times> TaskPriority) list" where
  "phases =
    [(''Requirements Analysis'', ''Analyze and clarify the requirements'', HIGH),
     (''Architecture Design'', ''Design the system architecture'', HIGH),
     (''Database Design'', ''Design database schema and models'', MEDIUM),
     (''Backend Development'', ''Implement backend API and logic'', HIGH),
     (''Frontend Development'', ''Implement user interface'', MEDIUM),
     (''Testing'', ''Write and run tests'', MEDIUM),
     (''Documentation'', ''Create user and technical documentation'', LOW),
     (''Deployment'', ''Deploy the application'', HIGH)]"

text \<open>
  The loop of \<^verbatim>\<open>plan_from_requirement\<close> over the phases still to do, with its
  variables \<^verbatim>\<open>previous_task_id\<close> and \<^verbatim>\<open>task_ids\<close>. \<open>clock i\<close> is the
  timestamp read in iteration \<open>i\<close>. The test \<^verbatim>\<open>if previous_task_id\<close> fails
  for None and for the empty string.
\<close>

fun plan_loop ::
  "(string \<times> string \<times> TaskPriority) list \<Rightarrow> string \<Rightarrow> (nat \<Rightarrow> string) \<Rightarrow> nat \<Rightarrow>
   string option \<Rightarrow> string list \<Rightarrow> TaskPlanner \<Rightarrow> string list \<times> TaskPlanner" where
  "plan_loop [] requirement clock i previous_task_id task_ids p = (task_ids, p)"
| "plan_loop ((ttl, descr, prio) # rest) requirement clock i previous_task_id task_ids p =
     (let deps = (case previous_task_id of
                    None \<Rightarrow> []
                  | Some prev \<Rightarrow> if prev = [] then [] else [prev]);
          ttype = replace_space (lower ttl);
          r = create_task p ttl (descr @ '' for: '' @ requirement) prio (Some deps)
                ttype (Some 60) None (clock i)
      in plan_loop rest requirement clock (Suc i) (Some (fst r)) (task_ids @ [fst r]) (snd r))"

definition plan_from_requirement ::
  "TaskPlanner \<Rightarrow> string \<Rightarrow> (nat \<Rightarrow> string) \<Rightarrow> string list \<times> TaskPlanner" where
  "plan_from_requirement p requirement clock =
     plan_loop phases requirement clock 0 None [] p"

text \<open>
  \<^verbatim>\<open>sorted(xs, key=f, reverse=True)\<close>: CPython reverses the list, sorts it
  stably in ascending order of the keys and reverses the result, so that
  elements with equal keys keep their order. Strings compare by code point,
  lexicographically.
\<close>

definition sorted_reverse :: "('a \<Rightarrow> 'k::linorder) \<Rightarrow> 'a list \<Rightarrow> 'a list" where
  "sorted_reverse f xs = rev (sort_key f (rev xs))"

definition get_ready_tasks :: "TaskPlanner \<Rightarrow> Task list" where
  "get_ready_tasks p =
     sorted_reverse (\<lambda>t. priority_value (priority t))
       (filter (\<lambda>t. status t = PENDING \<and> are_dependencies_completed p (dependencies t))
          (task_values p))"

text \<open>
  \<^verbatim>\<open>clear_completed_tasks\<close> deletes the entries whose task is COMPLETED.
\<close>

definition clear_completed_tasks :: "TaskPlanner \<Rightarrow> TaskPlanner" where
  "clear_completed_tasks p = p\<lparr>tasks := filter (\<lambda>(k, t). status t \<noteq> COMPLETED) (tasks p)\<rparr>"

section \<open>Floating point\<close>

text \<open>
  A Python float is an IEEE 754 binary64 number; a finite one is the rational
  it denotes. \<open>to_double x\<close> is the binary64 number nearest to \<open>x\<close>, ties to
  the even significand, for \<open>x\<close> below the overflow threshold (every value
  rounded in this theory is at most 100 in magnitude). Below \<open>2 ^ -1022\<close> the
  spacing is that of the subnormal numbers.
\<close>

fun log2_nat :: "nat \<Rightarrow> nat" where
  "log2_nat n = (if n < 2 then 0 else Suc (log2_nat (n div 2)))"

declare log2_nat.simps [simp del]

definition pow2 :: "int \<Rightarrow> rat" where
  "pow2 k = (if 0 \<le> k then 2 ^ nat k else 1 / 2 ^ nat (- k))"

text \<open>The integer \<open>e\<close> with \<open>2 ^ e \<le> x < 2 ^ (e + 1)\<close>, for \<open>x > 0\<close>.\<close>

definition log2_floor :: "rat \<Rightarrow> int" where
  "log2_floor x =
     (if 1 \<le> x then int (log2_nat (nat \<lfloor>x\<rfloor>))
      else - int (log2_nat (nat (\<lceil>1 / x\<rceil> - 1))) - 1)"

definition round_half_even :: "rat \<Rightarrow> int" where
  "round_half_even q =
     (let f = \<lfloor>q\<rfloor>; r = q - of_int f
      in if r < 1 / 2 then f else if 1 / 2 < r then f + 1
         else if even f then f else f + 1)"

definition to_double :: "rat \<Rightarrow> rat" where
  "to_double x =
     (if x = 0 then 0
      else let a = \<bar>x\<bar>;
               e = max (log2_floor a) (- 1022);
               u = pow2 (e - 52)
           in sgn x * of_int (round_half_even (a / u)) * u)"

text \<open>
  \<^verbatim>\<open>a / b\<close> on two ints (correctly rounded; the caller excludes \<^verbatim>\<open>b == 0\<close>),
  \<^verbatim>\<open>x * y\<close> on floats, and \<^verbatim>\<open>round(x, ndigits)\<close>, which rounds the exact
  value of \<open>x\<close> to \<open>ndigits\<close> decimals, ties to even, and returns the float
  nearest to that decimal.
\<close>

definition int_truediv :: "int \<Rightarrow> int \<Rightarrow> rat" where
  "int_truediv a b = to_double (of_int a / of_int b)"

definition float_mul :: "rat \<Rightarrow> rat \<Rightarrow> rat" where
  "float_mul x y = to_double (x * y)"

definition py_round :: "rat \<Rightarrow> nat \<Rightarrow> rat" where
  "py_round x ndigits =
     to_double (of_int (round_half_even (x * 10 ^ ndigits)) / 10 ^ ndigits)"

section \<open>Progress of the planner\<close>

definition get_overall_status :: "int \<Rightarrow> int \<Rightarrow> int \<Rightarrow> string" where
  "get_overall_status completed failed total_tasks =
     (if failed > 0 then ''has_issues''
      else if completed = total_tasks then ''completed''
      else if completed > 0 then ''in_progress''
      else ''not_started'')"

text \<open>\<^verbatim>\<open>sum(1 for t in self.tasks.values() if t.status == s)\<close>\<close>

definition count_status :: "TaskPlanner \<Rightarrow> TaskStatus \<Rightarrow> int" where
  "count_status p s = int (length (filter (\<lambda>t. status t = s) (task_values p)))"

definition get_task_progress :: "TaskPlanner \<Rightarrow> (string \<times> pyval) list" where
  "get_task_progress p =
     (let total_tasks = int (length (tasks p)) in
      if total_tasks = 0 then [(''progress'', PInt 0), (''status'', PStr ''No tasks'')]
      else
        let completed = count_status p COMPLETED;
            in_progress = count_status p IN_PROGRESS;
            failed = count_status p FAILED;
            pending = count_status p PENDING;
            progress = float_mul (int_truediv completed total_tasks) 100
        in [(''total_tasks'', PInt total_tasks),
            (''completed'', PInt completed),
            (''in_progress'', PInt in_progress),
            (''failed'', PInt failed),
            (''pending'', PInt pending),
            (''progress_percentage'', PFloat (py_round progress 2)),
            (''status'', PStr (get_overall_status completed failed total_tasks))])"

text \<open>
  The formula of the specification, \<^verbatim>\<open>round(100*completed/total, 2)\<close>, read
  as the Python expression it is (\<open>claimed_percentage\<close>) and as the exact
  quotient rounded to two decimals, ties to even (\<open>exact_percentage\<close>).
\<close>

definition claimed_percentage :: "int \<Rightarrow> int \<Rightarrow> rat" where
  "claimed_percentage completed total_tasks =
     py_round (int_truediv (100 * completed) total_tasks) 2"

definition exact_percentage :: "int \<Rightarrow> int \<Rightarrow> rat" where
  "exact_percentage completed total_tasks =
     of_int (round_half_even (100 * of_int completed / of_int total_tasks * 10 ^ 2)) / 10 ^ 2"

section \<open>Retry with backoff (src/core/autonomous\_engine.py)\<close>

text \<open>
  What the wrapper of \<^verbatim>\<open>retry_with_backoff\<close> can raise: the exception of
  the wrapped function (an instance of \<^verbatim>\<open>Exception\<close>, the class the handler
  catches), the OverflowError of \<^verbatim>\<open>base_delay * (2 ** attempt)\<close> when the
  int is too large to convert to a float, and the TypeError of
  \<^verbatim>\<open>raise last_exception\<close> when no attempt was made and it is still None.
\<close>

datatype 'e retry_error = OpError 'e | OverflowError | TypeError

text \<open>
  Multiplying the float \<^verbatim>\<open>base_delay\<close> by an int converts the int to a float
  first, which raises OverflowError when it rounds to \<open>2 ^ 1024\<close> or more.
\<close>

definition int_to_float_overflows :: "int \<Rightarrow> bool" where
  "int_to_float_overflows n \<longleftrightarrow> 2 ^ 1024 - 2 ^ 970 \<le> \<bar>n\<bar>"

text \<open>
  One call of the wrapper: what it returns or raises, how often it called the
  wrapped function, and the delays it slept, in order.
\<close>

record ('e, 'a) retry_run =
  outcome :: "'e retry_error + 'a"
  invocations :: nat
  sleeps :: "rat list"

text \<open>
  The loop \<^verbatim>\<open>for attempt in range(max_retries)\<close>, with \<open>remaining\<close>
  iterations to go. \<open>func a\<close> is the outcome of the call of the wrapped
  function in iteration \<open>a\<close>: \<open>Inr\<close> its result, \<open>Inl\<close> its exception.
  The two delays are floats; a product with a power of two is exact, so it is
  the rational product (as long as it stays in the range of the floats).
  After the loop comes \<^verbatim>\<open>raise last_exception\<close>.
\<close>

fun retry_loop ::
  "int \<Rightarrow> rat \<Rightarrow> rat \<Rightarrow> (nat \<Rightarrow> 'e + 'a) \<Rightarrow> nat \<Rightarrow> nat \<Rightarrow> 'e option \<Rightarrow> nat \<Rightarrow> rat list \<Rightarrow>
   ('e, 'a) retry_run" where
  "retry_loop max_retries base_delay max_delay func attempt 0 last_exception calls slept =
     (case last_exception of
        None \<Rightarrow> \<lparr>outcome = Inl TypeError, invocations = calls, sleeps = slept\<rparr>
      | Some e \<Rightarrow> \<lparr>outcome = Inl (OpError e), invocations = calls, sleeps = slept\<rparr>)"
| "retry_loop max_retries base_delay max_delay func attempt (Suc remaining) last_exception calls slept =
     (case func attempt of
        Inr v \<Rightarrow> \<lparr>outcome = Inr v, invocations = Suc calls, sleeps = slept\<rparr>
      | Inl e \<Rightarrow>
          if int attempt = max_retries - 1
          then \<lparr>outcome = Inl (OpError e), invocations = Suc calls, sleeps = slept\<rparr>
          else if int_to_float_overflows (2 ^ attempt)
          then \<lparr>outcome = Inl OverflowError, invocations = Suc calls, sleeps = slept\<rparr>
          else retry_loop max_retries base_delay max_delay func (Suc attempt) remaining (Some e)
                 (Suc calls) (slept @ [min (base_delay * 2 ^ attempt) max_delay]))"

definition retry_with_backoff ::
  "int \<Rightarrow> rat \<Rightarrow> rat \<Rightarrow> (nat \<Rightarrow> 'e + 'a) \<Rightarrow> ('e, 'a) retry_run" where
  "retry_with_backoff max_retries base_delay max_delay func =
     retry_loop max_retries base_delay max_delay func 0 (nat max_retries) None 0 []"

text \<open>
  The undecorated \<^verbatim>\<open>_execute_task\<close>: the call of \<^verbatim>\<open>_update_progress\<close>
  before the \<^verbatim>\<open>try\<close>, then the dispatch to a handler inside it; an
  exception of the handler is caught and turned into the result False. The
  decorated method retries it with \<^verbatim>\<open>max_retries=2, base_delay=1.0\<close> and
  the default \<^verbatim>\<open>max_delay=60.0\<close>.
\<close>

definition execute_task_body :: "'e + unit \<Rightarrow> 'e + bool \<Rightarrow> 'e + bool" where
  "execute_task_body before_try handler =
     (case before_try of
        Inl e \<Rightarrow> Inl e
      | Inr _ \<Rightarrow> (case handler of Inl e \<Rightarrow> Inr False | Inr ok \<Rightarrow> Inr ok))"

definition execute_task ::
  "(nat \<Rightarrow> 'e + unit) \<Rightarrow> (nat \<Rightarrow> 'e + bool) \<Rightarrow> ('e, bool) retry_run" where
  "execute_task before_try handler =
     retry_with_backoff 2 1 60 (\<lambda>a. execute_task_body (before_try a) (handler a))"

text \<open>
  The undecorated \<^verbatim>\<open>build_application\<close>: logging and
  \<^verbatim>\<open>_update_progress\<close> before the \<^verbatim>\<open>try\<close>, then the steps inside it; an
  exception of a step is caught and turned into the result dictionary with
  \<^verbatim>\<open>"success": False\<close>. \<open>str_of\<close> is \<^verbatim>\<open>str(e)\<close>. The decorated method
  retries it with \<^verbatim>\<open>max_retries=3, base_delay=2.0\<close>.
\<close>

definition build_application_body ::
  "('e \<Rightarrow> string) \<Rightarrow> string \<Rightarrow> 'e + unit \<Rightarrow> 'e + (string \<times> pyval) list \<Rightarrow>
   'e + (string \<times> pyval) list" where
  "build_application_body str_of requirement before_try steps =
     (case before_try of
        Inl e \<Rightarrow> Inl e
      | Inr _ \<Rightarrow>
          (case steps of
             Inl e \<Rightarrow> Inr [(''success'', PBool False), (''error'', PStr (str_of e)),
                           (''requirement'', PStr requirement)]
           | Inr result \<Rightarrow> Inr result))"

definition build_application ::
  "('e \<Rightarrow> string) \<Rightarrow> string \<Rightarrow> (nat \<Rightarrow> 'e + unit) \<Rightarrow> (nat \<Rightarrow> 'e + (string \<times> pyval) list) \<Rightarrow>
   ('e, (string \<times> pyval) list) retry_run" where
  "build_application str_of requirement before_try steps =
     retry_with_backoff 3 2 60
       (\<lambda>a. build_application_body str_of requirement (before_try a) (steps a))"

section \<open>Executing a plan (src/core/autonomous\_engine.py)\<close>





section \<open>The memory manager (src/core/memory\_manager.py)\<close>

text \<open>
  A JSON document, as \<^verbatim>\<open>json.dump\<close> writes it and \<^verbatim>\<open>json.load\<close> reads it.
  The text of the file stands between the two; it is taken to determine the
  document (the encoder escapes every string, writes ints in full and floats
  by \<^verbatim>\<open>repr\<close>). Limits of the interpreter (recursion depth, the digit limit
  of int conversion) are left out.
\<close>

datatype json =
    JNull
  | JBool bool
  | JInt int
  | JFloat rat
  | JStr string
  | JArr "json list"
  | JObj "(string \<times> json) list"

text \<open>\<^verbatim>\<open>str(i)\<close> for an int.\<close>

definition str_int :: "int \<Rightarrow> string" where
  "str_int i = (if i < 0 then CHR ''-'' # str_nat (nat (- i)) else str_nat (nat i))"



text \<open>
  What \<^verbatim>\<open>json.load\<close> makes of a document: an object becomes a dictionary
  with str keys, filled pair by pair, so that a repeated key keeps its first
  position and its last value.
\<close>

definition dict_of_pairs :: "('k \<times> 'v) list \<Rightarrow> ('k \<times> 'v) list" where
  "dict_of_pairs ps = foldl (\<lambda>d kv. AList.update (fst kv) (snd kv) d) [] ps"

fun from_json :: "json \<Rightarrow> pyval" where
  "from_json JNull = PNone"
| "from_json (JBool b) = PBool b"
| "from_json (JInt i) = PInt i"
| "from_json (JFloat r) = PFloat r"
| "from_json (JStr s) = PStr s"
| "from_json (JArr xs) = PList (map from_json xs)"
| "from_json (JObj kvs) = PDict (dict_of_pairs (map (\<lambda>kv. (PStr (fst kv), from_json (snd kv))) kvs))"

text \<open>
  The values that JSON represents as they are: no tuple and no foreign object
  anywhere, and dictionaries with str keys (no two equal, as in any
  dictionary).
\<close>

fun is_str :: "pyval \<Rightarrow> bool" where
  "is_str (PStr s) = True"
| "is_str _ = False"

fun json_native :: "pyval \<Rightarrow> bool" where
  "json_native (PList xs) = (\<forall>x \<in> set xs. json_native x)"
| "json_native (PTuple xs) = False"
| "json_native (PDict kvs) =
     ((\<forall>kv \<in> set kvs. is_str (fst kv) \<and> json_native (snd kv)) \<and> distinct (map fst kvs))"
| "json_native (PObject n) = False"
| "json_native _ = True"

text \<open>
  The file \<^verbatim>\<open>./memory/<project_name>/memory.json\<close>: a document, or the
  beginning of one when \<^verbatim>\<open>json.dump\<close> raised after \<^verbatim>\<open>open(..., 'w')\<close>
  had emptied the file and the first chunks were written. The file system maps
  a project name to its file, if there is one; opening, reading and writing
  succeed.
\<close>

datatype file_content = Document json | Truncated

text \<open>
  The four attributes of a \<^verbatim>\<open>MemoryManager\<close> that are persisted. After a
  load they hold whatever the file held, so they are Python values.
\<close>

record MemoryManager =
  project_name :: string
  conversation_history :: pyval
  code_context :: pyval
  project_state :: pyval
  learning_memory :: pyval


text \<open>\<^verbatim>\<open>d.get(k, default)\<close>\<close>

definition dict_get :: "(pyval \<times> pyval) list \<Rightarrow> string \<Rightarrow> pyval \<Rightarrow> pyval" where
  "dict_get d k dflt = (case map_of d (PStr k) of Some v \<Rightarrow> v | None \<Rightarrow> dflt)"

text \<open>
  \<^verbatim>\<open>_load_memory\<close>: nothing happens without a file; a file that does not
  parse, or whose document is not an object, raises inside the \<^verbatim>\<open>try\<close>
  before any attribute is assigned.
\<close>

definition load_memory :: "(string \<Rightarrow> file_content option) \<Rightarrow> MemoryManager \<Rightarrow> MemoryManager" where
  "load_memory fs mm =
     (case fs (project_name mm) of
        None \<Rightarrow> mm
      | Some Truncated \<Rightarrow> mm
      | Some (Document doc) \<Rightarrow>
          (case from_json doc of
             PDict memory_data \<Rightarrow>
               mm\<lparr>conversation_history := dict_get memory_data ''conversation_history'' (PList []),
                  code_context := dict_get memory_data ''code_context'' (PDict []),
                  project_state := dict_get memory_data ''project_state'' (PDict []),
                  learning_memory := dict_get memory_data ''learning_memory'' (PDict [])\<rparr>
           | _ \<Rightarrow> mm))"

text \<open>\<^verbatim>\<open>MemoryManager(project_name)\<close>: empty attributes, then \<^verbatim>\<open>_load_memory()\<close>.\<close>

definition new_memory_manager :: "(string \<Rightarrow> file_content option) \<Rightarrow> string \<Rightarrow> MemoryManager" where
  "new_memory_manager fs name =
     load_memory fs \<lparr>project_name = name, conversation_history = PList [],
                     code_context = PDict [], project_state = PDict [],
                     learning_memory = PDict []\<rparr>"

text \<open>
  \<^verbatim>\<open>add_conversation\<close> and \<^verbatim>\<open>add_code_context\<close>; \<open>now\<close> is the timestamp
  read, \<open>py_hash\<close> the built-in \<^verbatim>\<open>hash\<close> of this process. Appending to
  something that is not a list, or storing into something that is not a
  dictionary, raises.
\<close>

datatype store_error = AttributeError | SubscriptTypeError

definition add_conversation ::
  "MemoryManager \<Rightarrow> string \<Rightarrow> string \<Rightarrow> (pyval \<times> pyval) list option \<Rightarrow> string \<Rightarrow>
   store_error + MemoryManager" where
  "add_conversation mm role content md now =
     (let entry = PDict [(PStr ''timestamp'', PStr now),
                         (PStr ''role'', PStr role),
                         (PStr ''content'', PStr content),
                         (PStr ''metadata'', PDict (case md of None \<Rightarrow> [] | Some m \<Rightarrow> m))]
      in case conversation_history mm of
           PList entries \<Rightarrow> Inr (mm\<lparr>conversation_history := PList (entries @ [entry])\<rparr>)
         | _ \<Rightarrow> Inl AttributeError)"

definition calculate_checksum :: "(string \<Rightarrow> int) \<Rightarrow> string \<Rightarrow> string" where
  "calculate_checksum py_hash content =
     (let s = str_int (py_hash content) in drop (length s - 8) s)"

definition add_code_context ::
  "(string \<Rightarrow> int) \<Rightarrow> MemoryManager \<Rightarrow> string \<Rightarrow> string \<Rightarrow> string \<Rightarrow> string \<Rightarrow>
   store_error + MemoryManager" where
  "add_code_context py_hash mm file_path content language now =
     (let entry = PDict [(PStr ''content'', PStr content),
                         (PStr ''language'', PStr language),
                         (PStr ''last_updated'', PStr now),
                         (PStr ''checksum'', PStr (calculate_checksum py_hash content))]
      in case code_context mm of
           PDict artifacts \<Rightarrow>
             Inr (mm\<lparr>code_context := PDict (AList.update (PStr file_path) entry artifacts)\<rparr>)
         | _ \<Rightarrow> Inl SubscriptTypeError)"

section \<open>Auxiliary notions\<close>

text \<open>
  The number a string of decimal digits denotes, and the invariant of the
  planner: every key of \<^verbatim>\<open>self.tasks\<close> was issued by \<open>create_task\<close> at a
  smaller value of the counter.
\<close>

definition digits_value :: "string \<Rightarrow> nat" where
  "digits_value s = foldl (\<lambda>a c. 10 * a + (of_char c - 48)) 0 s"

definition planner_wf :: "TaskPlanner \<Rightarrow> bool" where
  "planner_wf p \<longleftrightarrow> (\<forall>k \<in> fst ` set (tasks p). \<exists>n < task_counter p. k = make_task_id n)"

text \<open>One iteration of the loop: the planner after it.\<close>

definition plan_step ::
  "string \<times> string \<times> TaskPriority \<Rightarrow> string \<Rightarrow> (nat \<Rightarrow> string) \<Rightarrow> nat \<Rightarrow> string option \<Rightarrow>
   TaskPlanner \<Rightarrow> TaskPlanner" where
  "plan_step ph req clock i prev p =
     snd (create_task p (fst ph) (fst (snd ph) @ '' for: '' @ req) (snd (snd ph))
            (Some (case prev of None \<Rightarrow> [] | Some q \<Rightarrow> if q = [] then [] else [q]))
            (replace_space (lower (fst ph))) (Some 60) None (clock i))"

section \<open>Sample inputs\<close>

text \<open>Planners used as concrete inputs: tasks with the fields a test needs.\<close>

definition sample_task ::
  "string \<Rightarrow> TaskStatus \<Rightarrow> TaskPriority \<Rightarrow> string list \<Rightarrow> Task" where
  "sample_task tid st prio deps =
     \<lparr>task_id = tid, title = ''T'', description = ''D'', status = st, priority = prio,
      dependencies = deps, task_type = ''generic'', estimated_time = None,
      actual_time = None, created_at = Some ''2024-01-01T00:00:00'',
      completed_at = None, metadata = None\<rparr>"

definition chain_planner :: TaskPlanner where
  "chain_planner =
     \<lparr>tasks = [(''task_0000'', sample_task ''task_0000'' COMPLETED HIGH []),
               (''task_0001'', sample_task ''task_0001'' PENDING HIGH [''task_0000'']),
               (''task_0002'', sample_task ''task_0002'' PENDING LOW [''task_0001''])],
      task_counter = 3\<rparr>"

definition running_planner :: TaskPlanner where
  "running_planner =
     \<lparr>tasks = [(''task_0000'', sample_task ''task_0000'' IN_PROGRESS HIGH [])],
      task_counter = 1\<rparr>"

definition four_ready :: TaskPlanner where
  "four_ready =
     \<lparr>tasks = [(''task_0000'', sample_task ''task_0000'' PENDING LOW []),
               (''task_0001'', sample_task ''task_0001'' PENDING CRITICAL []),
               (''task_0002'', sample_task ''task_0002'' PENDING MEDIUM []),
               (''task_0003'', sample_task ''task_0003'' PENDING HIGH [])],
      task_counter = 4\<rparr>"

definition always_fails :: "nat \<Rightarrow> string + bool" where
  "always_fails a = Inl (''boom'')"

definition raising_before_try :: "nat \<Rightarrow> nat + unit" where
  "raising_before_try a = Inl (100 + a)"

definition steps_done :: "nat \<Rightarrow> nat + (string \<times> pyval) list" where
  "steps_done a = Inr []"

definition handler_done :: "nat \<Rightarrow> nat + bool" where
  "handler_done a = Inr True"






definition progress_planner :: "nat \<Rightarrow> nat \<Rightarrow> TaskPlanner" where
  "progress_planner n k =
     \<lparr>tasks = map (\<lambda>i. (make_task_id i,
                 sample_task (make_task_id i) (if i < k then COMPLETED else PENDING) MEDIUM []))
               [0..<n],
      task_counter = n\<rparr>"


definition sample_hash :: "string \<Rightarrow> int" where
  "sample_hash s = 42"

definition sample_store :: MemoryManager where
  "sample_store =
     \<lparr>project_name = ''demo'',
      conversation_history =
        PList [PDict [(PStr ''timestamp'', PStr ''2024-01-01T00:00:00''),
                      (PStr ''role'', PStr ''user''),
                      (PStr ''content'', PStr ''build a todo app''),
                      (PStr ''metadata'', PDict [])]],
      code_context =
        PDict [(PStr ''main.py'',
                PDict [(PStr ''content'', PStr ''print(1)''),
                       (PStr ''language'', PStr ''python''),
                       (PStr ''last_updated'', PStr ''2024-01-01T00:00:01''),
                       (PStr ''checksum'', PStr ''42'')])],
      project_state = PDict [],
      learning_memory = PDict []\<rparr>"



section \<open>Facts about the planner\<close>

lemma are_dependencies_completed_iff:
  "are_dependencies_completed p deps \<longleftrightarrow>
     (\<forall>d \<in> set deps. \<exists>t. map_of (tasks p) d = Some t \<and> status t = COMPLETED)"
  by (induction deps) (auto split: option.splits)

lemma map_of_update_same:
  "map_of (AList.update k v al) k = Some v"
  by (simp add: AList.update_conv')

lemma map_of_update_other:
  "k' \<noteq> k \<Longrightarrow> map_of (AList.update k v al) k' = map_of al k'"
  by (simp add: AList.update_conv')

text \<open>
  C1. For a task \<open>T\<close> stored under \<open>tid\<close>, \<open>start_task\<close> returns True exactly
  when \<open>T\<close> is PENDING and every id in its dependency list is the key of a
  COMPLETED task. When it returns False the planner is unchanged. When it
  returns True the task stored under \<open>tid\<close> is \<open>T\<close> with status IN\_PROGRESS
  and every other entry is as before.
\<close>

theorem start_task_iff:
  assumes "map_of (tasks p) tid = Some T"
  shows "(fst (start_task p tid) \<longleftrightarrow>
            status T = PENDING \<and>
            (\<forall>d \<in> set (dependencies T).
               \<exists>t. map_of (tasks p) d = Some t \<and> status t = COMPLETED))
       \<and> (\<not> fst (start_task p tid) \<longrightarrow> snd (start_task p tid) = p)
       \<and> (fst (start_task p tid) \<longrightarrow>
            map_of (tasks (snd (start_task p tid))) tid = Some (T\<lparr>status := IN_PROGRESS\<rparr>)
          \<and> (\<forall>k. k \<noteq> tid \<longrightarrow>
                 map_of (tasks (snd (start_task p tid))) k = map_of (tasks p) k)
          \<and> map fst (tasks (snd (start_task p tid))) = map fst (tasks p)
          \<and> task_counter (snd (start_task p tid)) = task_counter p)"
proof -
  have present: "tid \<in> fst ` set (tasks p)"
    using assms by (metis domI dom_map_of_conv_image_fst)
  show ?thesis
    using assms present
    by (simp add: start_task_def are_dependencies_completed_iff
        map_of_update_same map_of_update_other AList.update_keys)
qed


theorem start_task_iff_witness:
  "map_of (tasks chain_planner) ''task_0001''
     = Some (sample_task ''task_0001'' PENDING HIGH [''task_0000''])
   \<and> fst (start_task chain_planner ''task_0001'')
   \<and> map_of (tasks (snd (start_task chain_planner ''task_0001''))) ''task_0001''
     = Some (sample_task ''task_0001'' IN_PROGRESS HIGH [''task_0000''])
   \<and> map_of (tasks chain_planner) ''task_0002''
     = Some (sample_task ''task_0002'' PENDING LOW [''task_0001''])
   \<and> \<not> fst (start_task chain_planner ''task_0002'')
   \<and> snd (start_task chain_planner ''task_0002'') = chain_planner"
proof -
  have h1: "map_of (tasks chain_planner) ''task_0001''
              = Some (sample_task ''task_0001'' PENDING HIGH [''task_0000''])"
    by (simp add: chain_planner_def)
  have h2: "map_of (tasks chain_planner) ''task_0002''
              = Some (sample_task ''task_0002'' PENDING LOW [''task_0001''])"
    by (simp add: chain_planner_def)
  have d0: "map_of (tasks chain_planner) ''task_0000''
              = Some (sample_task ''task_0000'' COMPLETED HIGH [])"
    by (simp add: chain_planner_def)
  have s1: "fst (start_task chain_planner ''task_0001'')"
    using start_task_iff [OF h1] d0 by (simp add: sample_task_def)
  have s2: "\<not> fst (start_task chain_planner ''task_0002'')"
    using start_task_iff [OF h2] h1 by (simp add: sample_task_def)
  show ?thesis
    using start_task_iff [OF h1] start_task_iff [OF h2] h1 h2 s1 s2
    by (simp add: sample_task_def)
qed

text \<open>
  C6. For a task \<open>T\<close> stored under \<open>tid\<close>, \<open>complete_task\<close> returns True
  exactly when \<open>T\<close> is IN\_PROGRESS; it then stores \<open>T\<close> with status COMPLETED,
  the given duration and the timestamp read, and changes no other entry.
  When it returns False the planner is unchanged. A second call after a
  successful one, with any duration and at any later clock reading, returns
  False and leaves the planner, so also \<open>completed_at\<close>, as the first call
  left it.
\<close>

theorem complete_task_once:
  assumes "map_of (tasks p) tid = Some T"
  shows "(fst (complete_task p tid a now) \<longleftrightarrow> status T = IN_PROGRESS)
       \<and> (\<not> fst (complete_task p tid a now) \<longrightarrow> snd (complete_task p tid a now) = p)
       \<and> (fst (complete_task p tid a now) \<longrightarrow>
            map_of (tasks (snd (complete_task p tid a now))) tid
              = Some (T\<lparr>status := COMPLETED, actual_time := a, completed_at := Some now\<rparr>)
          \<and> (\<forall>k. k \<noteq> tid \<longrightarrow>
                 map_of (tasks (snd (complete_task p tid a now))) k = map_of (tasks p) k)
          \<and> complete_task (snd (complete_task p tid a now)) tid a' now'
              = (False, snd (complete_task p tid a now)))"
  using assms
  by (simp add: complete_task_def map_of_update_same map_of_update_other)

theorem complete_task_once_witness:
  "map_of (tasks running_planner) ''task_0000''
     = Some (sample_task ''task_0000'' IN_PROGRESS HIGH [])
   \<and> fst (complete_task running_planner ''task_0000'' (Some 5) ''2024-01-01T01:00:00'')
   \<and> map_of (tasks (snd (complete_task running_planner ''task_0000'' (Some 5)
         ''2024-01-01T01:00:00''))) ''task_0000''
     = Some ((sample_task ''task_0000'' COMPLETED HIGH [])
               \<lparr>actual_time := Some 5, completed_at := Some ''2024-01-01T01:00:00''\<rparr>)
   \<and> complete_task
        (snd (complete_task running_planner ''task_0000'' (Some 5) ''2024-01-01T01:00:00''))
        ''task_0000'' (Some 9) ''2024-01-01T02:00:00''
     = (False,
        snd (complete_task running_planner ''task_0000'' (Some 5) ''2024-01-01T01:00:00''))"
proof -
  have h: "map_of (tasks running_planner) ''task_0000''
             = Some (sample_task ''task_0000'' IN_PROGRESS HIGH [])"
    by (simp add: running_planner_def)
  show ?thesis
    using h complete_task_once [OF h, of "Some 5" "''2024-01-01T01:00:00''"
        "Some 9" "''2024-01-01T02:00:00''"]
    by (simp add: sample_task_def)
qed

text \<open>
  C10. With no task in the planner, \<open>get_task_progress\<close> returns the
  dictionary with the two keys \<open>progress\<close> (the int 0) and \<open>status\<close> (the
  string \<open>No tasks\<close>): none of the keys \<open>total_tasks\<close>, \<open>completed\<close>,
  \<open>in_progress\<close>, \<open>failed\<close>, \<open>pending\<close>, \<open>progress_percentage\<close> is in it,
  and its status is none of the four values \<open>get_overall_status\<close> returns.
\<close>

theorem get_task_progress_no_tasks:
  assumes "tasks p = []"
  shows "get_task_progress p = [(''progress'', PInt 0), (''status'', PStr ''No tasks'')]
       \<and> map_of (get_task_progress p) ''total_tasks'' = None
       \<and> map_of (get_task_progress p) ''completed'' = None
       \<and> map_of (get_task_progress p) ''in_progress'' = None
       \<and> map_of (get_task_progress p) ''failed'' = None
       \<and> map_of (get_task_progress p) ''pending'' = None
       \<and> map_of (get_task_progress p) ''progress_percentage'' = None
       \<and> map_of (get_task_progress p) ''status'' = Some (PStr ''No tasks'')
       \<and> (\<forall>c f t. get_overall_status c f t \<noteq> ''No tasks'')"
  using assms by (simp add: get_task_progress_def get_overall_status_def)

theorem get_task_progress_no_tasks_witness:
  "tasks init_planner = []
   \<and> get_task_progress init_planner = [(''progress'', PInt 0), (''status'', PStr ''No tasks'')]
   \<and> map_of (get_task_progress init_planner) ''progress_percentage'' = None"
proof -
  have h: "tasks init_planner = []"
    by (simp add: init_planner_def)
  show ?thesis
    using h get_task_progress_no_tasks [OF h] by simp
qed

text \<open>
  C7. \<open>get_ready_tasks\<close> sorts on the string \<^verbatim>\<open>priority.value\<close>, in
  descending order, and \<open>medium > low > high > critical\<close> as strings. Four
  ready tasks created in the order LOW, CRITICAL, MEDIUM, HIGH come back as
  MEDIUM, LOW, HIGH, CRITICAL: the task of priority CRITICAL is last, not
  first.
\<close>

theorem get_ready_tasks_string_order:
  "map (\<lambda>t. (task_id t, priority t)) (get_ready_tasks four_ready)
     = [(''task_0002'', MEDIUM), (''task_0000'', LOW),
        (''task_0003'', HIGH), (''task_0001'', CRITICAL)]"
  by (simp add: get_ready_tasks_def four_ready_def task_values_def sample_task_def
      sorted_reverse_def)

section \<open>Planning from a requirement\<close>

lemma digits_value_snoc: "digits_value (s @ [c]) = 10 * digits_value s + (of_char c - 48)"
  by (simp add: digits_value_def)

lemma digits_value_digit: "d < 10 \<Longrightarrow> digits_value [digit_char d] = d"
  by (simp add: digits_value_def digit_char_def)

lemma digits_value_str_nat: "digits_value (str_nat n) = n"
proof (induction n rule: str_nat.induct)
  case (1 n)
  show ?case
  proof (cases "n < 10")
    case True
    then show ?thesis by (subst str_nat.simps) (simp add: digits_value_digit)
  next
    case False
    have "of_char (digit_char (n mod 10)) - 48 = n mod 10"
      by (simp add: digit_char_def)
    with False 1 show ?thesis
      by (subst str_nat.simps) (simp add: digits_value_snoc)
  qed
qed

lemma digits_value_zeros: "digits_value (replicate k (CHR ''0'') @ s) = digits_value s"
proof -
  have "foldl (\<lambda>a c. 10 * a + (of_char c - 48)) (0::nat) (replicate k (CHR ''0'')) = 0"
    by (induction k) simp_all
  then show ?thesis by (simp add: digits_value_def)
qed

lemma digits_value_format: "digits_value (format_04d n) = n"
  by (simp add: format_04d_def digits_value_zeros digits_value_str_nat)

lemma make_task_id_inj [simp]: "make_task_id n = make_task_id m \<longleftrightarrow> n = m"
proof
  assume "make_task_id n = make_task_id m"
  then have "format_04d n = format_04d m" by (simp add: make_task_id_def)
  then have "digits_value (format_04d n) = digits_value (format_04d m)" by simp
  then show "n = m" by (simp add: digits_value_format)
qed simp

lemma make_task_id_nonempty [simp]: "make_task_id n \<noteq> []"
  by (simp add: make_task_id_def)

lemma update_fresh: "k \<notin> fst ` set al \<Longrightarrow> AList.update k v al = al @ [(k, v)]"
  by (induction al) auto

lemma wf_fresh: "planner_wf p \<Longrightarrow> task_counter p \<le> n \<Longrightarrow> make_task_id n \<notin> fst ` set (tasks p)"
  by (fastforce simp: planner_wf_def)


lemma create_task_fst: "fst (create_task p ttl descr prio deps ttype est md now) = make_task_id (task_counter p)"
  by (simp add: create_task_def Let_def)

lemma create_task_counter: "task_counter (snd (create_task p ttl descr prio deps ttype est md now)) = Suc (task_counter p)"
  by (simp add: create_task_def Let_def)

lemma create_task_other:
  "k \<noteq> make_task_id (task_counter p) \<Longrightarrow>
   map_of (tasks (snd (create_task p ttl descr prio deps ttype est md now))) k = map_of (tasks p) k"
  by (simp add: create_task_def Let_def update_conv')

lemma create_task_new:
  "\<exists>t. map_of (tasks (snd (create_task p ttl descr prio deps ttype est md now))) (make_task_id (task_counter p)) = Some t
     \<and> task_id t = make_task_id (task_counter p) \<and> title t = ttl \<and> status t = PENDING
     \<and> priority t = prio \<and> dependencies t = (case deps of None \<Rightarrow> [] | Some ds \<Rightarrow> ds)"
  by (simp add: create_task_def Let_def update_conv')

lemma create_task_wf:
  assumes "planner_wf p"
  shows "planner_wf (snd (create_task p ttl descr prio deps ttype est md now))"
    and "map fst (tasks (snd (create_task p ttl descr prio deps ttype est md now)))
          = map fst (tasks p) @ [make_task_id (task_counter p)]"
    and "take (length (tasks p)) (tasks (snd (create_task p ttl descr prio deps ttype est md now))) = tasks p"
proof -
  have fresh: "make_task_id (task_counter p) \<notin> fst ` set (tasks p)"
    using assms by (simp add: wf_fresh)
  show "planner_wf (snd (create_task p ttl descr prio deps ttype est md now))"
    using assms unfolding planner_wf_def create_task_def Let_def
    by (fastforce simp: update_fresh [OF fresh] less_Suc_eq)
  show "map fst (tasks (snd (create_task p ttl descr prio deps ttype est md now)))
          = map fst (tasks p) @ [make_task_id (task_counter p)]"
    by (simp add: create_task_def Let_def update_fresh [OF fresh])
  show "take (length (tasks p)) (tasks (snd (create_task p ttl descr prio deps ttype est md now))) = tasks p"
    by (simp add: create_task_def Let_def update_fresh [OF fresh])
qed


lemma new_ids_shift:
  "map (\<lambda>j. make_task_id (c + j)) [0..<Suc n] = make_task_id c # map (\<lambda>j. make_task_id (Suc c + j)) [0..<n]"
proof -
  have "[0..<Suc n] = 0 # map Suc [0..<n]"
    by (simp add: upt_conv_Cons map_Suc_upt del: upt_Suc)
  then show ?thesis
    by (simp only: list.map map_map comp_def) simp
qed

lemma plan_loop_step:
  "plan_loop (ph # rest) req clock i prev ids p =
     plan_loop rest req clock (Suc i) (Some (make_task_id (task_counter p)))
       (ids @ [make_task_id (task_counter p)]) (plan_step ph req clock i prev p)"
  by (cases ph) (simp add: Let_def create_task_fst plan_step_def)

lemma plan_step_counter: "task_counter (plan_step ph req clock i prev p) = Suc (task_counter p)"
  by (simp add: plan_step_def create_task_counter)

lemma plan_loop_ids:
  "fst (plan_loop phs req clock i prev ids p) = ids @ map (\<lambda>j. make_task_id (task_counter p + j)) [0..<length phs]"
proof (induction phs arbitrary: i prev ids p)
  case Nil
  show ?case by simp
next
  case (Cons ph rest)
  show ?case
    by (simp add: plan_loop_step Cons.IH plan_step_counter new_ids_shift del: upt_Suc)
qed

lemma plan_loop_counter:
  "task_counter (snd (plan_loop phs req clock i prev ids p)) = task_counter p + length phs"
proof (induction phs arbitrary: i prev ids p)
  case Nil
  show ?case by simp
next
  case (Cons ph rest)
  show ?case
    by (simp only: plan_loop_step Cons.IH plan_step_counter) simp
qed

lemma plan_loop_old:
  assumes "\<forall>j < length phs. k \<noteq> make_task_id (task_counter p + j)"
  shows "map_of (tasks (snd (plan_loop phs req clock i prev ids p))) k = map_of (tasks p) k"
  using assms
proof (induction phs arbitrary: i prev ids p)
  case Nil
  show ?case by simp
next
  case (Cons ph rest)
  have k0: "k \<noteq> make_task_id (task_counter p)"
    using Cons.prems by force
  have "\<forall>j < length rest. k \<noteq> make_task_id (task_counter (plan_step ph req clock i prev p) + j)"
    using Cons.prems by (force simp: plan_step_counter)
  then have "map_of (tasks (snd (plan_loop (ph # rest) req clock i prev ids p))) k
        = map_of (tasks (plan_step ph req clock i prev p)) k"
    by (simp only: plan_loop_step Cons.IH)
  also have "\<dots> = map_of (tasks p) k"
    unfolding plan_step_def by (rule create_task_other [OF k0])
  finally show ?case .
qed

lemma plan_loop_new:
  assumes "j < length phs"
  shows "\<exists>t. map_of (tasks (snd (plan_loop phs req clock i prev ids p))) (make_task_id (task_counter p + j)) = Some t
     \<and> task_id t = make_task_id (task_counter p + j) \<and> title t = fst (phs ! j) \<and> status t = PENDING
     \<and> priority t = snd (snd (phs ! j))
     \<and> dependencies t =
         (if j = 0 then (case prev of None \<Rightarrow> [] | Some q \<Rightarrow> if q = [] then [] else [q])
          else [make_task_id (task_counter p + (j - 1))])"
  using assms
proof (induction phs arbitrary: j i prev ids p)
  case Nil
  then show ?case by simp
next
  case (Cons ph rest)
  let ?p1 = "plan_step ph req clock i prev p"
  let ?c = "task_counter p"
  show ?case
  proof (cases j)
    case 0
    have "\<forall>j' < length rest. make_task_id ?c \<noteq> make_task_id (task_counter ?p1 + j')"
      by (simp add: plan_step_counter)
    then have "map_of (tasks (snd (plan_loop (ph # rest) req clock i prev ids p))) (make_task_id ?c)
        = map_of (tasks ?p1) (make_task_id ?c)"
      by (simp only: plan_loop_step plan_loop_old)
    moreover have "\<exists>t. map_of (tasks ?p1) (make_task_id ?c) = Some t
       \<and> task_id t = make_task_id ?c \<and> title t = fst ph \<and> status t = PENDING
       \<and> priority t = snd (snd ph)
       \<and> dependencies t = (case prev of None \<Rightarrow> [] | Some q \<Rightarrow> if q = [] then [] else [q])"
      unfolding plan_step_def using create_task_new by force
    ultimately show ?thesis
      using 0 by simp
  next
    case (Suc j')
    then have "j' < length rest" using Cons.prems by simp
    then have "\<exists>t. map_of (tasks (snd (plan_loop rest req clock (Suc i) (Some (make_task_id ?c))
                   (ids @ [make_task_id ?c]) ?p1))) (make_task_id (task_counter ?p1 + j')) = Some t
       \<and> task_id t = make_task_id (task_counter ?p1 + j') \<and> title t = fst (rest ! j') \<and> status t = PENDING
       \<and> priority t = snd (snd (rest ! j'))
       \<and> dependencies t =
         (if j' = 0 then (case Some (make_task_id ?c) of None \<Rightarrow> [] | Some q \<Rightarrow> if q = [] then [] else [q])
          else [make_task_id (task_counter ?p1 + (j' - 1))])"
      by (rule Cons.IH)
    then obtain t where t:
       "map_of (tasks (snd (plan_loop rest req clock (Suc i) (Some (make_task_id ?c))
                   (ids @ [make_task_id ?c]) ?p1))) (make_task_id (task_counter ?p1 + j')) = Some t"
       "task_id t = make_task_id (task_counter ?p1 + j')" "title t = fst (rest ! j')" "status t = PENDING"
       "priority t = snd (snd (rest ! j'))"
       "dependencies t =
         (if j' = 0 then (case Some (make_task_id ?c) of None \<Rightarrow> [] | Some q \<Rightarrow> if q = [] then [] else [q])
          else [make_task_id (task_counter ?p1 + (j' - 1))])"
      by blast
    have c1: "task_counter ?p1 + j' = ?c + j"
      by (simp add: plan_step_counter Suc)
    have d: "dependencies t = [make_task_id (?c + (j - 1))]"
    proof (cases j')
      case 0
      then show ?thesis using t(6) Suc by simp
    next
      case (Suc j'')
      then show ?thesis using t(6) \<open>j = Suc j'\<close> by (simp add: plan_step_counter)
    qed
    have "map_of (tasks (snd (plan_loop (ph # rest) req clock i prev ids p))) (make_task_id (?c + j)) = Some t"
      using t(1) by (simp only: plan_loop_step c1)
    moreover have "task_id t = make_task_id (?c + j)" using t(2) by (simp only: c1)
    moreover have "title t = fst ((ph # rest) ! j)" using t(3) Suc by simp
    moreover have "priority t = snd (snd ((ph # rest) ! j))" using t(5) Suc by simp
    ultimately show ?thesis
      using t(4) d Suc by simp
  qed
qed

lemma plan_step_wf:
  assumes "planner_wf p"
  shows "planner_wf (plan_step ph req clock i prev p)"
    and "map fst (tasks (plan_step ph req clock i prev p)) = map fst (tasks p) @ [make_task_id (task_counter p)]"
    and "take (length (tasks p)) (tasks (plan_step ph req clock i prev p)) = tasks p"
  unfolding plan_step_def
  by (rule create_task_wf(1) [OF assms], rule create_task_wf(2) [OF assms],
      rule create_task_wf(3) [OF assms])

lemma plan_loop_wf:
  assumes "planner_wf p"
  shows "planner_wf (snd (plan_loop phs req clock i prev ids p))
       \<and> map fst (tasks (snd (plan_loop phs req clock i prev ids p)))
          = map fst (tasks p) @ map (\<lambda>j. make_task_id (task_counter p + j)) [0..<length phs]
       \<and> take (length (tasks p)) (tasks (snd (plan_loop phs req clock i prev ids p))) = tasks p"
  using assms
proof (induction phs arbitrary: i prev ids p)
  case Nil
  then show ?case by simp
next
  case (Cons ph rest)
  let ?p1 = "plan_step ph req clock i prev p"
  let ?p2 = "snd (plan_loop rest req clock (Suc i) (Some (make_task_id (task_counter p)))
                (ids @ [make_task_id (task_counter p)]) ?p1)"
  note wf1 = plan_step_wf [OF Cons.prems, of ph req clock i prev]
  have ih: "planner_wf ?p2
       \<and> map fst (tasks ?p2) = map fst (tasks ?p1) @ map (\<lambda>j. make_task_id (task_counter ?p1 + j)) [0..<length rest]
       \<and> take (length (tasks ?p1)) (tasks ?p2) = tasks ?p1"
    using wf1(1) by (rule Cons.IH)
  have len: "length (tasks p) \<le> length (tasks ?p1)"
    using arg_cong [OF wf1(2), of length] by simp
  have "take (length (tasks p)) (tasks ?p2)
        = take (length (tasks p)) (take (length (tasks ?p1)) (tasks ?p2))"
    using len by (simp add: min_def)
  also have "\<dots> = take (length (tasks p)) (tasks ?p1)"
    using ih by simp
  also have "\<dots> = tasks p" by (rule wf1(3))
  finally have t: "take (length (tasks p)) (tasks ?p2) = tasks p" .
  show ?case
    using ih wf1(2) t
    by (simp add: plan_loop_step plan_step_counter new_ids_shift del: upt_Suc)
qed


lemma plan_ids: "fst (plan_from_requirement p r clock) = map (\<lambda>j. make_task_id (task_counter p + j)) [0..<8]"
proof -
  have "length phases = 8" by (simp add: phases_def)
  then show ?thesis
    by (simp only: plan_from_requirement_def plan_loop_ids append_Nil)
qed

lemma new_ids_distinct: "distinct (map (\<lambda>j. make_task_id (c + j)) [0..<n])"
  by (simp add: distinct_map inj_on_def)

lemma new_ids_nth: "j < n \<Longrightarrow> map (\<lambda>j. make_task_id (c + j)) [0..<n] ! j = make_task_id (c + j)"
  by simp

lemma plan_new:
  assumes "j < 8"
  shows "\<exists>t. map_of (tasks (snd (plan_from_requirement p r clock))) (make_task_id (task_counter p + j)) = Some t
     \<and> task_id t = make_task_id (task_counter p + j) \<and> title t = fst (phases ! j) \<and> status t = PENDING
     \<and> priority t = snd (snd (phases ! j))
     \<and> dependencies t = (if j = 0 then [] else [make_task_id (task_counter p + (j - 1))])"
proof -
  have "j < length phases" using assms by (simp add: phases_def)
  from plan_loop_new [OF this, of r clock 0 None "[]" p] show ?thesis
    by (simp only: plan_from_requirement_def option.case)
qed

lemma plan_old:
  assumes "k \<notin> set (map (\<lambda>j. make_task_id (task_counter p + j)) [0..<8])"
  shows "map_of (tasks (snd (plan_from_requirement p r clock))) k = map_of (tasks p) k"
proof -
  have "\<forall>j < length phases. k \<noteq> make_task_id (task_counter p + j)"
    using assms by (auto simp: phases_def)
  then show ?thesis
    by (simp only: plan_from_requirement_def plan_loop_old)
qed

lemma plan_wf:
  assumes "planner_wf p"
  shows "planner_wf (snd (plan_from_requirement p r clock))
       \<and> map fst (tasks (snd (plan_from_requirement p r clock)))
          = map fst (tasks p) @ map (\<lambda>j. make_task_id (task_counter p + j)) [0..<8]
       \<and> take (length (tasks p)) (tasks (snd (plan_from_requirement p r clock))) = tasks p"
proof -
  have "length phases = 8" by (simp add: phases_def)
  with plan_loop_wf [OF assms, of phases r clock 0 None "[]"] show ?thesis
    by (simp only: plan_from_requirement_def)
qed

text \<open>
  C2. For every planner \<open>p\<close>, requirement \<open>r\<close> and clock, the call returns
  eight distinct ids, those of the counter values \<open>task_counter p\<close> to
  \<open>task_counter p + 7\<close>. After the call the task stored under the \<open>j\<close>-th
  returned id has the title of the \<open>j\<close>-th phase, is PENDING, and its
  dependency list is empty for the first and the singleton of the preceding
  returned id for the others; every key that is not a returned id keeps its
  entry. In a planner whose keys were all issued by \<open>create_task\<close> the eight
  entries are new and appended in this order behind the old ones. The ids and
  the dependency lists are the same for any other requirement and clock.
\<close>

theorem plan_from_requirement_chain:
  assumes "plan_from_requirement p r clock = (ids, p')"
  shows "length ids = 8 \<and> distinct ids
       \<and> ids = map (\<lambda>j. make_task_id (task_counter p + j)) [0..<8]
       \<and> (\<forall>j<8. \<exists>t. map_of (tasks p') (ids ! j) = Some t \<and> task_id t = ids ! j
              \<and> title t = fst (phases ! j) \<and> status t = PENDING
              \<and> dependencies t = (if j = 0 then [] else [ids ! (j - 1)]))
       \<and> (\<forall>k. k \<notin> set ids \<longrightarrow> map_of (tasks p') k = map_of (tasks p) k)
       \<and> (planner_wf p \<longrightarrow>
            map fst (tasks p') = map fst (tasks p) @ ids
          \<and> take (length (tasks p)) (tasks p') = tasks p
          \<and> planner_wf p')
       \<and> (\<forall>r' clock'.
            fst (plan_from_requirement p r' clock') = ids
          \<and> (\<forall>j<8. map_option dependencies
                       (map_of (tasks (snd (plan_from_requirement p r' clock'))) (ids ! j))
                   = map_option dependencies (map_of (tasks p') (ids ! j))))"
proof -
  let ?ids = "map (\<lambda>j. make_task_id (task_counter p + j)) [0..<8]"
  have ids: "ids = ?ids"
    using assms plan_ids [of p r clock] by simp
  have p': "p' = snd (plan_from_requirement p r clock)"
    using assms by simp
  have nth: "\<And>j. j < 8 \<Longrightarrow> ids ! j = make_task_id (task_counter p + j)"
    unfolding ids by (rule new_ids_nth)
  have len: "length ids = 8" unfolding ids by simp
  have dist: "distinct ids" unfolding ids by (rule new_ids_distinct)
  have new: "\<exists>t. map_of (tasks (snd (plan_from_requirement p r0 clock0))) (ids ! j) = Some t
       \<and> task_id t = ids ! j \<and> title t = fst (phases ! j) \<and> status t = PENDING
       \<and> dependencies t = (if j = 0 then [] else [ids ! (j - 1)])" if "j < 8" for j r0 clock0
  proof -
    have "j - 1 < 8" using that by simp
    then show ?thesis
      using plan_new [OF that, of p r0 clock0] by (simp only: nth [OF that] nth) blast
  qed
  have old: "\<forall>k. k \<notin> set ids \<longrightarrow> map_of (tasks p') k = map_of (tasks p) k"
    unfolding ids p' using plan_old by blast
  have wf: "planner_wf p \<longrightarrow>
            map fst (tasks p') = map fst (tasks p) @ ids
          \<and> take (length (tasks p)) (tasks p') = tasks p
          \<and> planner_wf p'"
    unfolding ids p' using plan_wf by blast
  have indep: "fst (plan_from_requirement p r' clock') = ids
          \<and> (\<forall>j<8. map_option dependencies
                       (map_of (tasks (snd (plan_from_requirement p r' clock'))) (ids ! j))
                   = map_option dependencies (map_of (tasks p') (ids ! j)))" for r' clock'
  proof (intro conjI allI impI)
    show "fst (plan_from_requirement p r' clock') = ids"
      unfolding ids by (rule plan_ids)
  next
    fix j :: nat assume j: "j < 8"
    from new [OF j, of r' clock'] new [OF j, of r clock]
    show "map_option dependencies
            (map_of (tasks (snd (plan_from_requirement p r' clock'))) (ids ! j))
          = map_option dependencies (map_of (tasks p') (ids ! j))"
      unfolding p' by auto
  qed
  have new': "\<forall>j<8. \<exists>t. map_of (tasks p') (ids ! j) = Some t \<and> task_id t = ids ! j
              \<and> title t = fst (phases ! j) \<and> status t = PENDING
              \<and> dependencies t = (if j = 0 then [] else [ids ! (j - 1)])"
    unfolding p' using new by blast
  show ?thesis
    using len dist ids new' old wf indep by blast
qed

lemma init_planner_wf: "planner_wf init_planner"
  by (simp add: planner_wf_def init_planner_def)

theorem plan_from_requirement_chain_witness:
  "fst (plan_from_requirement init_planner ''build a todo app'' (\<lambda>i. ''2024-01-01T00:00:00''))
     = [''task_0000'', ''task_0001'', ''task_0002'', ''task_0003'',
        ''task_0004'', ''task_0005'', ''task_0006'', ''task_0007'']
   \<and> planner_wf init_planner
   \<and> map fst (tasks (snd (plan_from_requirement init_planner ''build a todo app''
         (\<lambda>i. ''2024-01-01T00:00:00''))))
     = [''task_0000'', ''task_0001'', ''task_0002'', ''task_0003'',
        ''task_0004'', ''task_0005'', ''task_0006'', ''task_0007'']
   \<and> map_option dependencies
        (map_of (tasks (snd (plan_from_requirement init_planner ''build a todo app''
           (\<lambda>i. ''2024-01-01T00:00:00'')))) ''task_0003'')
     = Some [''task_0002'']"
proof -
  let ?r = "plan_from_requirement init_planner ''build a todo app'' (\<lambda>i. ''2024-01-01T00:00:00'')"
  have h: "?r = (fst ?r, snd ?r)" by simp
  have c: "task_counter init_planner = 0" "tasks init_planner = []"
    by (simp_all add: init_planner_def)
  have ids: "map (\<lambda>j. make_task_id (task_counter init_planner + j)) [0..<8]
     = [''task_0000'', ''task_0001'', ''task_0002'', ''task_0003'',
        ''task_0004'', ''task_0005'', ''task_0006'', ''task_0007'']"
    unfolding c by code_simp
  note t = plan_from_requirement_chain [OF h]
  have e: "fst ?r = [''task_0000'', ''task_0001'', ''task_0002'', ''task_0003'',
        ''task_0004'', ''task_0005'', ''task_0006'', ''task_0007'']"
    using t ids by simp
  have k: "map fst (tasks (snd ?r)) = fst ?r"
    using t init_planner_wf c by simp
  have "(3::nat) < 8" by simp
  with t have "\<exists>t. map_of (tasks (snd ?r)) (fst ?r ! 3) = Some t
      \<and> dependencies t = (if (3::nat) = 0 then [] else [fst ?r ! (3 - 1)])"
    by blast
  then have d: "map_option dependencies (map_of (tasks (snd ?r)) ''task_0003'') = Some [''task_0002'']"
    unfolding e by auto
  show ?thesis
    using e k d init_planner_wf by simp
qed

section \<open>The retry policy\<close>

lemma pow2_overflows: "int_to_float_overflows (2 ^ a) \<longleftrightarrow> 1024 \<le> a"
proof
  assume "int_to_float_overflows (2 ^ a)"
  then have "(2::int) ^ 1024 - 2 ^ 970 \<le> 2 ^ a" by (simp add: int_to_float_overflows_def)
  moreover have "(2::int) ^ 1023 < 2 ^ 1024 - 2 ^ 970" by simp
  ultimately have "(2::int) ^ 1023 < 2 ^ a" by linarith
  then have "1023 < a" by (simp only: power_strict_increasing_iff) 
  then show "1024 \<le> a" by simp
next
  assume "1024 \<le> a"
  then have "(2::int) ^ 1024 \<le> 2 ^ a" by (simp only: power_increasing_iff) 
  then show "int_to_float_overflows (2 ^ a)" by (simp add: int_to_float_overflows_def)
qed

lemma retry_loop_all_fail:
  assumes "\<forall>a. attempt \<le> a \<and> a < attempt + remaining \<longrightarrow> func a = Inl (err a)"
    and "int (attempt + remaining) = max_retries" and "0 < remaining"
    and "attempt + remaining \<le> 1025"
  shows "retry_loop max_retries base_delay max_delay func attempt remaining lastx calls slept =
     \<lparr>outcome = Inl (OpError (err (attempt + remaining - 1))),
      invocations = calls + remaining,
      sleeps = slept @ map (\<lambda>a. min (base_delay * 2 ^ a) max_delay) [attempt ..< attempt + remaining - 1]\<rparr>"
  using assms
proof (induction remaining arbitrary: attempt lastx calls slept)
  case 0
  then show ?case by simp
next
  case (Suc remaining)
  have f: "func attempt = Inl (err attempt)" using Suc.prems(1) by simp
  show ?case
  proof (cases "remaining = 0")
    case True
    then show ?thesis using Suc.prems f by simp
  next
    case False
    have ne: "int attempt \<noteq> max_retries - 1" using Suc.prems(2) False by linarith
    have no: "\<not> int_to_float_overflows (2 ^ attempt)"
      using Suc.prems(4) False by (simp add: pow2_overflows)
    have ih: "retry_loop max_retries base_delay max_delay func (Suc attempt) remaining (Some (err attempt)) (Suc calls)
               (slept @ [min (base_delay * 2 ^ attempt) max_delay]) =
       \<lparr>outcome = Inl (OpError (err (Suc attempt + remaining - 1))),
        invocations = Suc calls + remaining,
        sleeps = (slept @ [min (base_delay * 2 ^ attempt) max_delay])
            @ map (\<lambda>a. min (base_delay * 2 ^ a) max_delay) [Suc attempt ..< Suc attempt + remaining - 1]\<rparr>"
      using Suc.prems False by (intro Suc.IH) auto
    have up: "[attempt ..< attempt + Suc remaining - 1] = attempt # [Suc attempt ..< Suc attempt + remaining - 1]"
      using False by (simp add: upt_conv_Cons)
    show ?thesis
      using f ne no ih unfolding up by simp
  qed
qed

text \<open>
  For \<open>1 \<le> n \<le> 1025\<close> attempts that all fail, the wrapped function is
  called \<open>n\<close> times, the exception of the last call is raised, and the
  delay slept after the failure of attempt \<open>a\<close> (counted from 0) is
  \<open>min (base_delay * 2 ^ a) max_delay\<close>.
\<close>

lemma retry_always_fails:
  assumes "\<forall>a < n. func a = Inl (err a)" and "0 < n" and "n \<le> 1025"
  shows "retry_with_backoff (int n) base_delay max_delay func =
     \<lparr>outcome = Inl (OpError (err (n - 1))), invocations = n,
      sleeps = map (\<lambda>a. min (base_delay * 2 ^ a) max_delay) [0 ..< n - 1]\<rparr>"
  using retry_loop_all_fail [of 0 n func err "int n" base_delay max_delay None 0 "[]"] assms
  by (simp add: retry_with_backoff_def)

lemma retry_loop_overflow:
  assumes "\<forall>a. attempt \<le> a \<and> a \<le> 1024 \<longrightarrow> func a = Inl (err a)"
    and "int (attempt + remaining) = max_retries" and "1025 < attempt + remaining"
    and "attempt \<le> 1024"
  shows "retry_loop max_retries base_delay max_delay func attempt remaining lastx calls slept =
     \<lparr>outcome = Inl OverflowError,
      invocations = calls + (1025 - attempt),
      sleeps = slept @ map (\<lambda>a. min (base_delay * 2 ^ a) max_delay) [attempt ..< 1024]\<rparr>"
  using assms
proof (induction remaining arbitrary: attempt lastx calls slept)
  case 0
  then show ?case by simp
next
  case (Suc remaining)
  have f: "func attempt = Inl (err attempt)" using Suc.prems by simp
  have ne: "int attempt \<noteq> max_retries - 1" using Suc.prems by linarith
  show ?case
  proof (cases "attempt = 1024")
    case True
    then have "int_to_float_overflows (2 ^ attempt)" unfolding pow2_overflows by simp
    then show ?thesis using f ne True by simp
  next
    case False
    then have lt: "attempt < 1024" using Suc.prems(4) by simp
    have no: "\<not> int_to_float_overflows (2 ^ attempt)"
      using lt by (simp add: pow2_overflows)
    have ih: "retry_loop max_retries base_delay max_delay func (Suc attempt) remaining (Some (err attempt)) (Suc calls)
               (slept @ [min (base_delay * 2 ^ attempt) max_delay]) =
       \<lparr>outcome = Inl OverflowError,
        invocations = Suc calls + (1025 - Suc attempt),
        sleeps = (slept @ [min (base_delay * 2 ^ attempt) max_delay])
            @ map (\<lambda>a. min (base_delay * 2 ^ a) max_delay) [Suc attempt ..< 1024]\<rparr>"
      using Suc.prems lt by (intro Suc.IH) auto
    have up: "[attempt ..< 1024] = attempt # [Suc attempt ..< 1024]"
      using lt by (simp add: upt_conv_Cons)
    show ?thesis
      using f ne no ih lt unfolding up by simp
  qed
qed

lemma retry_overflow:
  assumes "\<forall>a \<le> 1024. func a = Inl (err a)" and "1025 < n"
  shows "retry_with_backoff (int n) base_delay max_delay func =
     \<lparr>outcome = Inl OverflowError, invocations = 1025,
      sleeps = map (\<lambda>a. min (base_delay * 2 ^ a) max_delay) [0 ..< 1024]\<rparr>"
  using retry_loop_overflow [of 0 func err n "int n" base_delay max_delay None 0 "[]"] assms
  by (simp add: retry_with_backoff_def)

text \<open>
  C3. With \<^verbatim>\<open>max_retries=1026, base_delay=1.0, max_delay=60.0\<close> and a
  function that fails on every call, the wrapper calls the function 1025
  times and raises OverflowError, not the exception of a 1026th call: after
  the failure of attempt 1024 the product \<^verbatim>\<open>base_delay * (2 ** 1024)\<close>
  cannot be computed.
\<close>

theorem retry_with_backoff_overflow:
  "outcome (retry_with_backoff 1026 1 60 always_fails) = Inl OverflowError
   \<and> invocations (retry_with_backoff 1026 1 60 always_fails) = 1025"
proof -
  have "\<forall>a \<le> 1024. always_fails a = Inl ((\<lambda>_. ''boom'') a)" by (simp add: always_fails_def)
  from retry_overflow [OF this, of 1026 1 60] show ?thesis by simp
qed

text \<open>
  C8. At both layers, when every attempt the budget allows raises (three for
  \<open>build_application\<close>, two for \<open>execute_task\<close>), the decorated
  method raises the exception of the last attempt to its caller, after having
  slept 2 and 4, respectively 1.
\<close>

theorem retry_layers_reraise:
  "((\<forall>a<3. build_application_body str_of req (pre a) (steps a) = Inl (err a)) \<longrightarrow>
      outcome (build_application str_of req pre steps) = Inl (OpError (err 2))
    \<and> invocations (build_application str_of req pre steps) = 3
    \<and> sleeps (build_application str_of req pre steps) = [2, 4])
 \<and> ((\<forall>a<2. execute_task_body (pre' a) (handler a) = Inl (err' a)) \<longrightarrow>
      outcome (execute_task pre' handler) = Inl (OpError (err' 1))
    \<and> invocations (execute_task pre' handler) = 2
    \<and> sleeps (execute_task pre' handler) = [1])"
proof (intro conjI impI)
  assume h: "\<forall>a<3. build_application_body str_of req (pre a) (steps a) = Inl (err a)"
  have r: "build_application str_of req pre steps =
     \<lparr>outcome = Inl (OpError (err (3 - 1))), invocations = 3,
      sleeps = map (\<lambda>a. min (2 * 2 ^ a) 60) [0 ..< 3 - 1]\<rparr>"
    using retry_always_fails [OF h, of 2 60] by (simp add: build_application_def)
  show "outcome (build_application str_of req pre steps) = Inl (OpError (err 2))"
    unfolding r by simp
  show "invocations (build_application str_of req pre steps) = 3"
    unfolding r by simp
  show "sleeps (build_application str_of req pre steps) = [2, 4]"
    unfolding r by (simp add: upt_rec)
next
  assume h: "\<forall>a<2. execute_task_body (pre' a) (handler a) = Inl (err' a)"
  have r: "execute_task pre' handler =
     \<lparr>outcome = Inl (OpError (err' (2 - 1))), invocations = 2,
      sleeps = map (\<lambda>a. min (1 * 2 ^ a) 60) [0 ..< 2 - 1]\<rparr>"
    using retry_always_fails [OF h, of 1 60] by (simp add: execute_task_def)
  show "outcome (execute_task pre' handler) = Inl (OpError (err' 1))"
    unfolding r by simp
  show "invocations (execute_task pre' handler) = 2"
    unfolding r by simp
  show "sleeps (execute_task pre' handler) = [1]"
    unfolding r by (simp add: upt_rec)
qed

theorem retry_layers_reraise_witness:
  "build_application_body (\<lambda>e. ''error'') ''todo app''
      (raising_before_try 2) (steps_done 2) = Inl 102
   \<and> outcome (build_application (\<lambda>e. ''error'') ''todo app'' raising_before_try steps_done)
       = Inl (OpError 102)
   \<and> execute_task_body (raising_before_try 1) (handler_done 1) = Inl 101
   \<and> outcome (execute_task raising_before_try handler_done) = Inl (OpError 101)"
proof -
  have h3: "\<forall>a<3. build_application_body (\<lambda>e. ''error'') ''todo app''
             (raising_before_try a) (steps_done a) = Inl (100 + a)"
    by (simp add: build_application_body_def raising_before_try_def)
  have h2: "\<forall>a<2. execute_task_body (raising_before_try a) (handler_done a) = Inl (100 + a)"
    by (simp add: execute_task_body_def raising_before_try_def)
  show ?thesis
    using h3 h2
      retry_layers_reraise [of "\<lambda>e. ''error''" "''todo app''" raising_before_try
        steps_done "\<lambda>a. 100 + a" raising_before_try handler_done "\<lambda>a. 100 + a"]
    by simp
qed

text \<open>
  An exception raised inside the \<^verbatim>\<open>try\<close> block of either method never
  reaches its retry layer: the first attempt returns the failure value.
\<close>

lemma handler_error_not_retried:
  assumes "before_try 0 = Inr ()" and "handler 0 = Inl e"
  shows "execute_task before_try handler = \<lparr>outcome = Inr False, invocations = 1, sleeps = []\<rparr>"
  using assms by (simp add: execute_task_def retry_with_backoff_def execute_task_body_def numeral_2_eq_2)

lemma build_error_not_retried:
  assumes "before_try 0 = Inr ()" and "steps 0 = Inl e"
  shows "build_application str_of req before_try steps =
     \<lparr>outcome = Inr [(''success'', PBool False), (''error'', PStr (str_of e)),
                     (''requirement'', PStr req)],
      invocations = 1, sleeps = []\<rparr>"
  using assms
  by (simp add: build_application_def retry_with_backoff_def build_application_body_def
      numeral_3_eq_3)

section \<open>The critical short-circuit\<close>







section \<open>Rounding to a double, and the progress of the planner\<close>

lemma log2_nat_bounds: "0 < n \<Longrightarrow> 2 ^ log2_nat n \<le> n \<and> n < 2 ^ Suc (log2_nat n)"
proof (induction n rule: log2_nat.induct)
  case (1 n)
  show ?case
  proof (cases "n < 2")
    case True
    with 1(2) have "n = 1" by simp
    then show ?thesis by (simp add: log2_nat.simps)
  next
    case False
    then have pos: "0 < n div 2" by simp
    have ih: "2 ^ log2_nat (n div 2) \<le> n div 2 \<and> n div 2 < 2 ^ Suc (log2_nat (n div 2))"
      using 1(1) [OF False pos] .
    have eq: "log2_nat n = Suc (log2_nat (n div 2))"
      using False by (subst log2_nat.simps) simp
    have a: "2 * 2 ^ log2_nat (n div 2) \<le> n" using ih by linarith
    have b: "n < 2 * 2 ^ Suc (log2_nat (n div 2))" using ih by linarith
    show ?thesis unfolding eq using a b by simp
  qed
qed

lemma pow2_powi: "pow2 k = 2 powi k"
  by (simp add: pow2_def power_int_def power_one_over inverse_eq_divide)

lemma pow2_pos: "0 < pow2 k"
  by (simp add: pow2_def)

lemma pow2_nat: "pow2 (int n) = 2 ^ n"
  by (simp add: pow2_def)

lemma pow2_neg: "pow2 (- int n) = 1 / 2 ^ n"
  by (simp add: pow2_powi power_int_minus_divide)

lemma pow2_mono: "a \<le> b \<Longrightarrow> pow2 a \<le> pow2 b"
  by (simp add: pow2_powi power_int_increasing)

lemma pow2_less_imp: "pow2 a < pow2 b \<Longrightarrow> a < b"
  using pow2_mono [of b a] by (cases "a < b") auto

lemma pow2_Suc: "pow2 (k + 1) = 2 * pow2 k"
  by (simp add: pow2_powi power_int_add)

lemma pow2_diff: "pow2 (a - b) = pow2 a / pow2 b"
  by (simp add: pow2_powi power_int_diff)

lemma log2_floor_bounds:
  assumes "0 < x"
  shows "pow2 (log2_floor x) \<le> x \<and> x < pow2 (log2_floor x + 1)"
proof (cases "1 \<le> x")
  case True
  let ?n = "nat \<lfloor>x\<rfloor>"
  have n: "0 < ?n" using True by simp
  note b = log2_nat_bounds [OF n]
  have lo: "rat_of_nat ?n \<le> x" using True by simp
  have hi: "x < rat_of_nat ?n + 1" using True by simp linarith
  have e: "log2_floor x = int (log2_nat ?n)" using True by (simp add: log2_floor_def)
  have b1: "(2::rat) ^ log2_nat ?n \<le> rat_of_nat ?n"
    using b by (metis of_nat_le_iff of_nat_numeral of_nat_power)
  have b2: "rat_of_nat ?n + 1 \<le> 2 ^ Suc (log2_nat ?n)"
  proof -
    have "Suc ?n \<le> 2 ^ Suc (log2_nat ?n)" using b by simp
    then have "rat_of_nat (Suc ?n) \<le> rat_of_nat (2 ^ Suc (log2_nat ?n))"
      by (simp only: of_nat_le_iff)
    then show ?thesis by simp
  qed
  have "pow2 (log2_floor x + 1) = 2 ^ Suc (log2_nat ?n)"
    unfolding e using pow2_nat [of "Suc (log2_nat ?n)"] by (simp add: add.commute)
  moreover have "pow2 (log2_floor x) = 2 ^ log2_nat ?n"
    unfolding e by (rule pow2_nat)
  ultimately show ?thesis using b1 b2 lo hi by linarith
next
  case False
  let ?y = "1 / x"
  let ?m = "nat (\<lceil>?y\<rceil> - 1)"
  have y1: "1 < ?y" using False assms by simp
  have c2: "2 \<le> \<lceil>?y\<rceil>" using y1 by linarith
  have xpos: "0 < x" by (rule assms)
  have m: "0 < ?m" using c2 by linarith
  note b = log2_nat_bounds [OF m]
  have meq: "rat_of_nat ?m = of_int (\<lceil>?y\<rceil> - 1)"
  proof -
    have "0 \<le> \<lceil>?y\<rceil> - 1" using c2 by linarith
    then have "int ?m = \<lceil>?y\<rceil> - 1" by simp
    then have "rat_of_int (int ?m) = rat_of_int (\<lceil>?y\<rceil> - 1)" by (rule arg_cong)
    then show ?thesis by (simp only: of_int_of_nat_eq)
  qed
  have mlo: "rat_of_nat ?m < ?y"
    unfolding meq by linarith
  have mhi: "?y \<le> rat_of_nat ?m + 1"
    unfolding meq by simp
  have b1: "(2::rat) ^ log2_nat ?m \<le> rat_of_nat ?m"
    using b by (metis of_nat_le_iff of_nat_numeral of_nat_power)
  have b2: "rat_of_nat ?m + 1 \<le> 2 ^ Suc (log2_nat ?m)"
  proof -
    have "Suc ?m \<le> 2 ^ Suc (log2_nat ?m)" using b by simp
    then have "rat_of_nat (Suc ?m) \<le> rat_of_nat (2 ^ Suc (log2_nat ?m))"
      by (simp only: of_nat_le_iff)
    then show ?thesis by simp
  qed
  have e: "log2_floor x = - int (Suc (log2_nat ?m))"
    using False by (simp add: log2_floor_def)
  have e1: "log2_floor x + 1 = - int (log2_nat ?m)"
    unfolding e by simp
  have ylo: "2 ^ log2_nat ?m < ?y" using b1 mlo by linarith
  have yhi: "?y \<le> 2 ^ Suc (log2_nat ?m)" using b2 mhi by linarith
  have p1: "pow2 (log2_floor x) = 1 / 2 ^ Suc (log2_nat ?m)"
    unfolding e by (rule pow2_neg)
  have p2: "pow2 (log2_floor x + 1) = 1 / 2 ^ log2_nat ?m"
    unfolding e1 by (rule pow2_neg)
  have "1 / 2 ^ Suc (log2_nat ?m) \<le> x"
  proof -
    have "1 / (2::rat) ^ Suc (log2_nat ?m) \<le> 1 / ?y"
      using yhi y1 by (intro divide_left_mono) (auto simp: xpos)
    then show ?thesis by simp
  qed
  moreover have "x < 1 / 2 ^ log2_nat ?m"
  proof -
    have "1 / ?y < 1 / (2::rat) ^ log2_nat ?m"
      using ylo by (intro divide_strict_left_mono) (auto simp: xpos)
    then show ?thesis by simp
  qed
  ultimately show ?thesis unfolding p1 p2 by simp
qed

lemma round_half_even_error: "\<bar>of_int (round_half_even q) - q\<bar> \<le> 1 / 2"
proof -
  have "of_int \<lfloor>q\<rfloor> \<le> q" "q < of_int \<lfloor>q\<rfloor> + 1" by linarith+
  then show ?thesis
    by (auto simp: round_half_even_def Let_def)
qed

lemma round_half_even_nonneg: "0 \<le> q \<Longrightarrow> 0 \<le> round_half_even q"
  by (auto simp: round_half_even_def Let_def)

lemma to_double_nonneg: "0 \<le> x \<Longrightarrow> 0 \<le> to_double x"
proof (cases "x = 0")
  case True
  then show ?thesis by (simp add: to_double_def)
next
  case False
  assume "0 \<le> x"
  with False have x: "0 < x" by simp
  let ?u = "pow2 (max (log2_floor \<bar>x\<bar>) (- 1022) - 52)"
  have "0 \<le> \<bar>x\<bar> / ?u" using pow2_pos [of "max (log2_floor \<bar>x\<bar>) (- 1022) - 52"] by simp
  then have "0 \<le> round_half_even (\<bar>x\<bar> / ?u)" by (rule round_half_even_nonneg)
  then have "0 \<le> rat_of_int (round_half_even (\<bar>x\<bar> / ?u)) * ?u"
    using pow2_pos [of "max (log2_floor \<bar>x\<bar>) (- 1022) - 52"] by simp
  then show ?thesis using x False by (simp add: to_double_def Let_def)
qed

text \<open>
  Rounding a number below \<open>2 ^ k\<close> to a double moves it by at most half a
  unit in the last place, \<open>2 ^ (k - 54)\<close>.
\<close>

lemma to_double_error:
  assumes "0 \<le> x" and "x < pow2 k" and "- 1021 \<le> k"
  shows "\<bar>to_double x - x\<bar> \<le> pow2 (k - 54)"
proof (cases "x = 0")
  case True
  then show ?thesis using pow2_pos [of "k - 54"] by (simp add: to_double_def)
next
  case False
  with assms(1) have x: "0 < x" by simp
  let ?e = "max (log2_floor \<bar>x\<bar>) (- 1022)"
  let ?u = "pow2 (?e - 52)"
  let ?n = "round_half_even (\<bar>x\<bar> / ?u)"
  have upos: "0 < ?u" by (rule pow2_pos)
  have "pow2 (log2_floor x) \<le> x" using log2_floor_bounds [OF x] by simp
  then have "pow2 (log2_floor x) < pow2 k" using assms(2) by linarith
  then have "log2_floor x < k" by (rule pow2_less_imp)
  then have e: "?e \<le> k - 1" using assms(3) x by simp
  have td: "to_double x = rat_of_int ?n * ?u"
    using x False by (simp add: to_double_def Let_def)
  have "\<bar>rat_of_int ?n - x / ?u\<bar> \<le> 1 / 2"
    using round_half_even_error [of "\<bar>x\<bar> / ?u"] x by simp
  then have "\<bar>rat_of_int ?n - x / ?u\<bar> * ?u \<le> (1 / 2) * ?u"
    using upos by (intro mult_right_mono) auto
  moreover have "\<bar>rat_of_int ?n - x / ?u\<bar> * ?u = \<bar>rat_of_int ?n * ?u - x\<bar>"
  proof -
    have "\<bar>rat_of_int ?n - x / ?u\<bar> * ?u = \<bar>(rat_of_int ?n - x / ?u) * ?u\<bar>"
      using upos by (simp add: abs_mult)
    also have "(rat_of_int ?n - x / ?u) * ?u = rat_of_int ?n * ?u - x"
      using upos by (simp add: field_simps)
    finally show ?thesis .
  qed
  ultimately have err: "\<bar>to_double x - x\<bar> \<le> (1 / 2) * ?u"
    unfolding td by simp
  have "(1 / 2) * ?u = pow2 (?e - 53)"
  proof -
    have "?e - 52 = (?e - 53) + 1" by simp
    then have "pow2 (?e - 52) = pow2 ((?e - 53) + 1)" by (rule arg_cong)
    also have "\<dots> = 2 * pow2 (?e - 53)" by (rule pow2_Suc)
    finally show ?thesis by simp
  qed
  moreover have "pow2 (?e - 53) \<le> pow2 (k - 54)"
  proof -
    have "?e - 53 \<le> k - 54" using e by linarith
    then show ?thesis by (rule pow2_mono)
  qed
  ultimately show ?thesis using err by simp
qed

lemma pow2_values: "pow2 1 = 2" "pow2 7 = 128" "pow2 (- 53) = 1 / 2 ^ 53" "pow2 (- 47) = 1 / 2 ^ 47"
  by (simp_all add: pow2_def)

lemma scaled_error: "\<bar>a - g * 100\<bar> \<le> 1 / 2 \<Longrightarrow> \<bar>a / 100 - g\<bar> \<le> 1 / 200" for a g :: rat
  by linarith

text \<open>
  The percentage the code computes is within 0.01 of \<open>100 * c / t\<close>.
\<close>

lemma progress_percentage_error:
  assumes "0 \<le> c" and "c \<le> t" and "0 < t"
  shows "\<bar>py_round (float_mul (int_truediv c t) 100) 2 - 100 * of_int c / of_int t\<bar> \<le> 1 / 100"
proof -
  let ?q = "rat_of_int c / rat_of_int t"
  let ?d = "to_double ?q"
  let ?g = "to_double (?d * 100)"
  let ?z = "rat_of_int (round_half_even (?g * 10 ^ 2)) / 10 ^ 2"
  have hundred: "(10::rat) ^ 2 = 100" by simp
  have small: "(1::rat) / 2 ^ 53 \<le> 1 / 1000000" "(1::rat) / 2 ^ 47 \<le> 1 / 1000000"
    by simp_all
  have q0: "0 \<le> ?q" using assms by simp
  have q1: "?q \<le> 1" using assms by simp
  have "\<bar>?d - ?q\<bar> \<le> pow2 (1 - 54)"
    using q0 q1 by (intro to_double_error) (simp_all add: pow2_values)
  then have "\<bar>?d - ?q\<bar> \<le> 1 / 2 ^ 53" by (simp add: pow2_values)
  then have d_err: "\<bar>?d - ?q\<bar> \<le> 1 / 1000000" using small(1) by (rule order_trans)
  have d0: "0 \<le> ?d" using q0 by (rule to_double_nonneg)
  have y0: "0 \<le> ?d * 100" using d0 by simp
  have y_hi: "?d * 100 < 128" using d_err q1 by linarith
  have "\<bar>?g - ?d * 100\<bar> \<le> pow2 (7 - 54)"
    using y0 y_hi by (intro to_double_error) (simp_all add: pow2_values)
  then have "\<bar>?g - ?d * 100\<bar> \<le> 1 / 2 ^ 47" by (simp add: pow2_values)
  then have g_err: "\<bar>?g - ?d * 100\<bar> \<le> 1 / 1000000" using small(2) by (rule order_trans)
  have g0: "0 \<le> ?g" using y0 by (rule to_double_nonneg)
  have rh: "\<bar>rat_of_int (round_half_even (?g * 10 ^ 2)) - ?g * 10 ^ 2\<bar> \<le> 1 / 2"
    by (rule round_half_even_error)
  have z_err: "\<bar>?z - ?g\<bar> \<le> 1 / 200"
    using scaled_error [OF rh [unfolded hundred]] unfolding hundred .
  have z0: "0 \<le> ?z"
    using round_half_even_nonneg [of "?g * 10 ^ 2"] g0 by simp
  have z_hi: "?z < 128" using z_err g_err d_err q1 by linarith
  have "\<bar>to_double ?z - ?z\<bar> \<le> pow2 (7 - 54)"
    using z0 z_hi by (intro to_double_error) (simp_all add: pow2_values)
  then have "\<bar>to_double ?z - ?z\<bar> \<le> 1 / 2 ^ 47" by (simp add: pow2_values)
  then have r_err: "\<bar>to_double ?z - ?z\<bar> \<le> 1 / 1000000" using small(2) by (rule order_trans)
  have eq: "py_round (float_mul (int_truediv c t) 100) 2 = to_double ?z"
    by (simp add: py_round_def float_mul_def int_truediv_def)
  have "\<bar>to_double ?z - 100 * ?q\<bar> \<le> 1 / 100"
    using r_err z_err g_err d_err by linarith
  then show ?thesis unfolding eq by simp
qed

lemma count_below: "length (filter (\<lambda>i. i < k) [0..<n]) = min k n"
  by (induction n) auto

lemma progress_planner_counts:
  "length (tasks (progress_planner n k)) = n"
  "count_status (progress_planner n k) COMPLETED = int (min k n)"
  "count_status (progress_planner n k) FAILED = 0"
  by (simp_all add: progress_planner_def count_status_def task_values_def sample_task_def
      filter_map comp_def count_below)

lemma double_values:
  "py_round (float_mul (int_truediv 23 160) 100) 2 = to_double (1437 / 100)"
  "claimed_percentage 23 160 = to_double (1438 / 100)"
  "exact_percentage 23 160 = 1438 / 100"
  "to_double (1437 / 100) \<noteq> to_double (1438 / 100)"
  by code_simp+

text \<open>
  C5, the counterexample. With 23 of 160 tasks COMPLETED the quotient
  \<open>23 / 160\<close> is rounded to a double below 0.14375, its product with 100
  to one below 14.375, and \<open>round\<close> gives 14.37; the formula
  \<^verbatim>\<open>round(100*completed/total, 2)\<close> gives 14.38, as a Python expression and
  over the exact quotient.
\<close>

theorem progress_percentage_counterexample:
  "map_of (get_task_progress (progress_planner 160 23)) ''total_tasks'' = Some (PInt 160)
   \<and> map_of (get_task_progress (progress_planner 160 23)) ''completed'' = Some (PInt 23)
   \<and> map_of (get_task_progress (progress_planner 160 23)) ''progress_percentage''
       = Some (PFloat (to_double (1437 / 100)))
   \<and> claimed_percentage 23 160 = to_double (1438 / 100)
   \<and> exact_percentage 23 160 = 1438 / 100
   \<and> map_of (get_task_progress (progress_planner 160 23)) ''progress_percentage''
       \<noteq> Some (PFloat (claimed_percentage 23 160))"
proof -
  have t: "map_of (get_task_progress (progress_planner 160 23)) ''total_tasks'' = Some (PInt 160)"
    by (simp add: get_task_progress_def Let_def progress_planner_counts)
  have c: "map_of (get_task_progress (progress_planner 160 23)) ''completed'' = Some (PInt 23)"
    by (simp add: get_task_progress_def Let_def progress_planner_counts)
  have "map_of (get_task_progress (progress_planner 160 23)) ''progress_percentage''
       = Some (PFloat (py_round (float_mul (int_truediv 23 160) 100) 2))"
    by (simp add: get_task_progress_def Let_def progress_planner_counts)
  then have p: "map_of (get_task_progress (progress_planner 160 23)) ''progress_percentage''
       = Some (PFloat (to_double (1437 / 100)))"
    by (simp only: double_values(1))
  have n: "map_of (get_task_progress (progress_planner 160 23)) ''progress_percentage''
       \<noteq> Some (PFloat (claimed_percentage 23 160))"
    unfolding p double_values(2) using double_values(4) by simp
  show ?thesis
    using t c p n double_values(2,3) by (intro conjI)
qed

text \<open>
  C5, as amended. For a planner with at least one task,
  \<open>progress_percentage\<close> is \<^verbatim>\<open>round(p, 2)\<close> of the double
  \<^verbatim>\<open>p = (completed / total) * 100\<close>, computed in this order, and lies within
  0.01 of \<open>100 * completed / total\<close>. The status is \<open>has_issues\<close> whenever a
  task is FAILED, otherwise \<open>completed\<close> when all are COMPLETED,
  \<open>in_progress\<close> when some but not all are, and \<open>not_started\<close> when none is.
\<close>

theorem get_task_progress_nonempty:
  assumes "tasks p \<noteq> []"
  shows "map_of (get_task_progress p) ''progress_percentage''
           = Some (PFloat (py_round (float_mul
                (int_truediv (count_status p COMPLETED) (int (length (tasks p)))) 100) 2))
       \<and> \<bar>py_round (float_mul
                (int_truediv (count_status p COMPLETED) (int (length (tasks p)))) 100) 2
            - 100 * of_int (count_status p COMPLETED) / of_int (int (length (tasks p)))\<bar>
           \<le> 1 / 100
       \<and> (0 < count_status p FAILED \<longrightarrow>
            map_of (get_task_progress p) ''status'' = Some (PStr ''has_issues''))
       \<and> (count_status p FAILED = 0 \<and> count_status p COMPLETED = int (length (tasks p)) \<longrightarrow>
            map_of (get_task_progress p) ''status'' = Some (PStr ''completed''))
       \<and> (count_status p FAILED = 0 \<and> 0 < count_status p COMPLETED
            \<and> count_status p COMPLETED < int (length (tasks p)) \<longrightarrow>
            map_of (get_task_progress p) ''status'' = Some (PStr ''in_progress''))
       \<and> (count_status p COMPLETED = 0 \<and> count_status p FAILED = 0 \<longrightarrow>
            map_of (get_task_progress p) ''status'' = Some (PStr ''not_started''))"
proof -
  have t: "0 < int (length (tasks p))" using assms by simp
  have c0: "0 \<le> count_status p COMPLETED" by (simp add: count_status_def)
  have "length (filter (\<lambda>t. status t = COMPLETED) (task_values p)) \<le> length (tasks p)"
    using length_filter_le [of "\<lambda>t. status t = COMPLETED" "task_values p"]
    by (simp add: task_values_def)
  then have c1: "count_status p COMPLETED \<le> int (length (tasks p))"
    by (simp add: count_status_def)
  note err = progress_percentage_error [OF c0 c1 t]
  have pct: "map_of (get_task_progress p) ''progress_percentage''
           = Some (PFloat (py_round (float_mul
                (int_truediv (count_status p COMPLETED) (int (length (tasks p)))) 100) 2))"
    using assms by (simp add: get_task_progress_def Let_def)
  have st: "map_of (get_task_progress p) ''status''
           = Some (PStr (get_overall_status (count_status p COMPLETED) (count_status p FAILED)
                (int (length (tasks p)))))"
    using assms by (simp add: get_task_progress_def Let_def)
  have s1: "0 < count_status p FAILED \<longrightarrow>
            map_of (get_task_progress p) ''status'' = Some (PStr ''has_issues'')"
    by (simp add: st get_overall_status_def)
  have s2: "count_status p FAILED = 0 \<and> count_status p COMPLETED = int (length (tasks p)) \<longrightarrow>
            map_of (get_task_progress p) ''status'' = Some (PStr ''completed'')"
    by (simp add: st get_overall_status_def)
  have s3: "count_status p FAILED = 0 \<and> 0 < count_status p COMPLETED
            \<and> count_status p COMPLETED < int (length (tasks p)) \<longrightarrow>
            map_of (get_task_progress p) ''status'' = Some (PStr ''in_progress'')"
    by (simp add: st get_overall_status_def)
  have s4: "count_status p COMPLETED = 0 \<and> count_status p FAILED = 0 \<longrightarrow>
            map_of (get_task_progress p) ''status'' = Some (PStr ''not_started'')"
    using t by (simp add: st get_overall_status_def)
  show ?thesis
    using pct err s1 s2 s3 s4 by (intro conjI)
qed

theorem get_task_progress_nonempty_witness:
  "map_of (get_task_progress chain_planner) ''status'' = Some (PStr ''in_progress'')
   \<and> map_of (get_task_progress chain_planner) ''progress_percentage''
       = Some (PFloat (to_double (3333 / 100)))
   \<and> map_of (get_task_progress four_ready) ''status'' = Some (PStr ''not_started'')"
proof -
  have h1: "tasks chain_planner \<noteq> []" by (simp add: chain_planner_def)
  have h2: "tasks four_ready \<noteq> []" by (simp add: four_ready_def)
  have c1: "count_status chain_planner COMPLETED = 1" "count_status chain_planner FAILED = 0"
    "int (length (tasks chain_planner)) = 3"
    by (simp_all add: count_status_def chain_planner_def task_values_def sample_task_def)
  have c2: "count_status four_ready COMPLETED = 0" "count_status four_ready FAILED = 0"
    by (simp_all add: count_status_def four_ready_def task_values_def sample_task_def)
  have v: "py_round (float_mul (int_truediv 1 3) 100) 2 = to_double (3333 / 100)"
    by code_simp
  note w1 = get_task_progress_nonempty [OF h1, unfolded c1 v]
  note w2 = get_task_progress_nonempty [OF h2, unfolded c2]
  have a: "map_of (get_task_progress chain_planner) ''status'' = Some (PStr ''in_progress'')"
    using w1 by simp
  have b: "map_of (get_task_progress chain_planner) ''progress_percentage''
       = Some (PFloat (to_double (3333 / 100)))"
    using w1 by (rule conjunct1)
  have c: "map_of (get_task_progress four_ready) ''status'' = Some (PStr ''not_started'')"
    using w2 by simp
  show ?thesis using a b c by (intro conjI)
qed

section \<open>Saving and loading the memory\<close>





lemma sample_checksum: "calculate_checksum sample_hash ''print(1)'' = ''42''"
  by code_simp

text \<open>
  A store filled through \<open>add_conversation\<close> and \<open>add_code_context\<close> holds
  such values as long as the metadata passed does.
\<close>

lemma sample_store_built:
  "add_conversation (new_memory_manager Map.empty ''demo'') ''user'' ''build a todo app'' None
     ''2024-01-01T00:00:00'' = Inr mm1 \<Longrightarrow>
   add_code_context sample_hash mm1 ''main.py'' ''print(1)'' ''python'' ''2024-01-01T00:00:01''
     = Inr sample_store"
  by (auto simp: add_conversation_def add_code_context_def new_memory_manager_def load_memory_def
      sample_store_def sample_checksum Let_def)

lemma add_conversation_native:
  assumes "json_native (conversation_history mm)"
    and "json_native (PDict (case md of None \<Rightarrow> [] | Some m \<Rightarrow> m))"
    and "add_conversation mm role content md now = Inr mm'"
  shows "json_native (conversation_history mm')"
  using assms
  by (cases "conversation_history mm") (auto simp: add_conversation_def Let_def)

lemma update_set_cases: "kv \<in> set (AList.update k v al) \<Longrightarrow> kv \<in> set al \<or> kv = (k, v)"
  by (induction al) (auto split: if_splits)

lemma add_code_context_native:
  assumes "json_native (code_context mm)"
    and "add_code_context py_hash mm file_path content language now = Inr mm'"
  shows "json_native (code_context mm')"
proof (cases "code_context mm")
  case (PDict artifacts)
  let ?entry = "PDict [(PStr ''content'', PStr content),
                         (PStr ''language'', PStr language),
                         (PStr ''last_updated'', PStr now),
                         (PStr ''checksum'', PStr (calculate_checksum py_hash content))]"
  have mm': "code_context mm' = PDict (AList.update (PStr file_path) ?entry artifacts)"
    using assms(2) PDict by (auto simp: add_code_context_def Let_def)
  have d: "distinct (map fst artifacts)" and n: "\<forall>kv \<in> set artifacts. is_str (fst kv) \<and> json_native (snd kv)"
    using assms(1) PDict by auto
  have "distinct (map fst (AList.update (PStr file_path) ?entry artifacts))"
    using d by (rule AList.distinct_update)
  moreover have "\<forall>kv \<in> set (AList.update (PStr file_path) ?entry artifacts).
      is_str (fst kv) \<and> json_native (snd kv)"
  proof
    fix kv assume "kv \<in> set (AList.update (PStr file_path) ?entry artifacts)"
    then have "kv \<in> set artifacts \<or> kv = (PStr file_path, ?entry)"
      by (rule update_set_cases)
    then show "is_str (fst kv) \<and> json_native (snd kv)" using n by auto
  qed
  ultimately show ?thesis unfolding mm' by simp
qed (use assms(2) in \<open>auto simp: add_code_context_def Let_def\<close>)



section \<open>More about the planner\<close>

lemma priority_value_inj: "priority_value a = priority_value b \<longleftrightarrow> a = b"
  by (cases a; cases b) simp_all

text \<open>
  What \<open>get_ready_tasks\<close> does return: the tasks that are PENDING with
  all dependencies COMPLETED, in descending order of the strings
  \<^verbatim>\<open>priority.value\<close>, tasks of one priority in their order of creation.
\<close>

lemma get_ready_tasks_facts:
  "set (get_ready_tasks p) =
     {t \<in> set (task_values p).
        status t = PENDING \<and> are_dependencies_completed p (dependencies t)}"
  "sorted (rev (map (\<lambda>t. priority_value (priority t)) (get_ready_tasks p)))"
  "filter (\<lambda>t. priority t = pr) (get_ready_tasks p) =
     filter (\<lambda>t. priority t = pr)
       (filter (\<lambda>t. status t = PENDING \<and> are_dependencies_completed p (dependencies t))
          (task_values p))"
proof -
  let ?key = "\<lambda>t. priority_value (priority t)"
  let ?ready = "filter (\<lambda>t. status t = PENDING \<and> are_dependencies_completed p (dependencies t))
          (task_values p)"
  show "set (get_ready_tasks p) =
     {t \<in> set (task_values p).
        status t = PENDING \<and> are_dependencies_completed p (dependencies t)}"
    by (auto simp: get_ready_tasks_def sorted_reverse_def)
  show "sorted (rev (map ?key (get_ready_tasks p)))"
    by (simp add: get_ready_tasks_def sorted_reverse_def rev_map [symmetric])
  have "filter (\<lambda>t. ?key t = priority_value pr) (sort_key ?key (rev ?ready))
        = filter (\<lambda>t. ?key t = priority_value pr) (rev ?ready)"
    by (rule sort_key_stable)
  then have "filter (\<lambda>t. priority t = pr) (sort_key ?key (rev ?ready))
        = filter (\<lambda>t. priority t = pr) (rev ?ready)"
    by (simp only: priority_value_inj)
  then have "rev (filter (\<lambda>t. priority t = pr) (sort_key ?key (rev ?ready)))
        = rev (filter (\<lambda>t. priority t = pr) (rev ?ready))"
    by (rule arg_cong)
  then show "filter (\<lambda>t. priority t = pr) (get_ready_tasks p) = filter (\<lambda>t. priority t = pr) ?ready"
    by (simp only: get_ready_tasks_def sorted_reverse_def rev_filter rev_rev_ident)
qed

text \<open>
  Every operation of the planner keeps the invariant: the keys of
  \<^verbatim>\<open>self.tasks\<close> are ids issued at smaller values of the counter.
\<close>

lemma planner_wf_update:
  assumes "planner_wf p" and "map_of (tasks p) k = Some w"
  shows "planner_wf (p\<lparr>tasks := AList.update k v (tasks p)\<rparr>)"
proof -
  have "k \<in> fst ` set (tasks p)" using assms(2) by (metis domI dom_map_of_conv_image_fst)
  then have "fst ` set (AList.update k v (tasks p)) = fst ` set (tasks p)"
    by (auto simp: AList.dom_update)
  then show ?thesis using assms(1) by (simp add: planner_wf_def)
qed

lemma planner_wf_preserved:
  "planner_wf p \<Longrightarrow> planner_wf (snd (start_task p tid))"
  "planner_wf p \<Longrightarrow> planner_wf (snd (complete_task p tid a now))"
  "planner_wf p \<Longrightarrow> planner_wf (snd (fail_task p tid reason))"
  "planner_wf p \<Longrightarrow> planner_wf (clear_completed_tasks p)"
  "planner_wf p \<Longrightarrow> planner_wf (snd (create_task p ttl descr prio deps ttype est md now))"
proof -
  show "planner_wf p \<Longrightarrow> planner_wf (snd (start_task p tid))"
    by (simp add: start_task_def planner_wf_update split: option.splits)
  show "planner_wf p \<Longrightarrow> planner_wf (snd (complete_task p tid a now))"
    by (simp add: complete_task_def planner_wf_update split: option.splits)
  show "planner_wf p \<Longrightarrow> planner_wf (snd (fail_task p tid reason))"
    by (simp add: fail_task_def Let_def planner_wf_update split: option.splits)
  show "planner_wf p \<Longrightarrow> planner_wf (clear_completed_tasks p)"
    by (auto simp: planner_wf_def clear_completed_tasks_def)
  show "planner_wf p \<Longrightarrow> planner_wf (snd (create_task p ttl descr prio deps ttype est md now))"
    by (rule create_task_wf(1))
qed

end
